theory Spec2Isabelle
  imports Main
begin

section \<open>Python string primitives used by the pipeline\<close>

text \<open>
  Text is a list of characters. Isabelle's \<^typ>\<open>char\<close> has 256 values, so the model covers
  Python strings whose code points lie in Latin-1. On that range the tables below are those
  of \<^verbatim>\<open>str.isspace\<close>, \<^verbatim>\<open>str.upper\<close>, \<^verbatim>\<open>str.lower\<close> and of the classes
  \<^verbatim>\<open>\s\<close> and \<^verbatim>\<open>\w\<close> of the \<^verbatim>\<open>re\<close> module.
\<close>

definition whitespace :: "char list" where
  "whitespace =
     [CHR 0x09, CHR 0x0A, CHR 0x0B, CHR 0x0C, CHR 0x0D, CHR 0x1C, CHR 0x1D, CHR 0x1E,
      CHR 0x1F, CHR '' '', CHR 0x85, CHR 0xA0]"

definition is_space :: "char \<Rightarrow> bool" where
  "is_space c = (c \<in> set whitespace)"

definition lstrip :: "string \<Rightarrow> string" where
  "lstrip s = dropWhile is_space s"

definition rstrip :: "string \<Rightarrow> string" where
  "rstrip s = rev (dropWhile is_space (rev s))"

definition strip :: "string \<Rightarrow> string" where
  "strip s = rstrip (lstrip s)"

fun startswith :: "string \<Rightarrow> string \<Rightarrow> bool" where
  "startswith s [] = True"
| "startswith [] (p # ps) = False"
| "startswith (c # cs) (p # ps) = (c = p \<and> startswith cs ps)"

fun py_in :: "string \<Rightarrow> string \<Rightarrow> bool" where
  "py_in sub [] = (sub = [])"
| "py_in sub (c # cs) = (startswith (c # cs) sub \<or> py_in sub cs)"

text \<open>
  \<^verbatim>\<open>s.split(sep)\<close> for a non-empty separator: the pieces between the non-overlapping
  occurrences of \<open>sep\<close>, found from the left. \<open>cur\<close> is the piece being collected.
  (Python raises ValueError for an empty separator; the pipeline only splits on the
  constants \<^verbatim>\<open>";"\<close>, \<^verbatim>\<open>"```sql"\<close> and \<^verbatim>\<open>"```"\<close>.)
\<close>

function split_from :: "string \<Rightarrow> string \<Rightarrow> string \<Rightarrow> string list" where
  "split_from sep cur s =
     (if s = [] then [cur]
      else if sep \<noteq> [] \<and> startswith s sep then cur # split_from sep [] (drop (length sep) s)
      else split_from sep (cur @ [hd s]) (tl s))"
  by pat_completeness auto
termination
  by (relation "measure (\<lambda>(sep, cur, s). length s)") auto

definition py_split :: "string \<Rightarrow> string \<Rightarrow> string list" where
  "py_split s sep = split_from sep [] s"

text \<open>Indexing a list raises IndexError out of range: the model returns \<open>None\<close> there.\<close>

definition py_index :: "'a list \<Rightarrow> nat \<Rightarrow> 'a option" where
  "py_index xs i = (if i < length xs then Some (xs ! i) else None)"

text \<open>
  \<^verbatim>\<open>str.upper\<close> and \<^verbatim>\<open>str.lower\<close> on Latin-1, as tables of the letters that change.
  Three characters (codes 181, 223 and 255) upper-case to text outside Latin-1 or to two
  letters (223 gives SS) and are kept as they are. The pipeline upper-cases a statement only
  to test whether it starts with SELECT, and that test is not affected: no image of the
  three contains a letter of SELECT except SS, which is not part of that word.
\<close>

definition lower_letters :: "char list" where
  "lower_letters =
     ''abcdefghijklmnopqrstuvwxyz''
     @ [CHR 0xE0, CHR 0xE1, CHR 0xE2, CHR 0xE3, CHR 0xE4, CHR 0xE5, CHR 0xE6, CHR 0xE7,
      CHR 0xE8, CHR 0xE9, CHR 0xEA, CHR 0xEB, CHR 0xEC, CHR 0xED, CHR 0xEE, CHR 0xEF,
      CHR 0xF0, CHR 0xF1, CHR 0xF2, CHR 0xF3, CHR 0xF4, CHR 0xF5, CHR 0xF6, CHR 0xF8,
      CHR 0xF9, CHR 0xFA, CHR 0xFB, CHR 0xFC, CHR 0xFD, CHR 0xFE]"

definition upper_letters :: "char list" where
  "upper_letters =
     ''ABCDEFGHIJKLMNOPQRSTUVWXYZ''
     @ [CHR 0xC0, CHR 0xC1, CHR 0xC2, CHR 0xC3, CHR 0xC4, CHR 0xC5, CHR 0xC6, CHR 0xC7,
      CHR 0xC8, CHR 0xC9, CHR 0xCA, CHR 0xCB, CHR 0xCC, CHR 0xCD, CHR 0xCE, CHR 0xCF,
      CHR 0xD0, CHR 0xD1, CHR 0xD2, CHR 0xD3, CHR 0xD4, CHR 0xD5, CHR 0xD6, CHR 0xD8,
      CHR 0xD9, CHR 0xDA, CHR 0xDB, CHR 0xDC, CHR 0xDD, CHR 0xDE]"

definition upper_char :: "char \<Rightarrow> char" where
  "upper_char c = (case map_of (zip lower_letters upper_letters) c of None \<Rightarrow> c | Some u \<Rightarrow> u)"

definition lower_char :: "char \<Rightarrow> char" where
  "lower_char c = (case map_of (zip upper_letters lower_letters) c of None \<Rightarrow> c | Some l \<Rightarrow> l)"

definition upper :: "string \<Rightarrow> string" where
  "upper s = map upper_char s"

text \<open>\<^verbatim>\<open>s.replace(old, new, 1)\<close>: the first occurrence only.\<close>

fun replace_first :: "string \<Rightarrow> string \<Rightarrow> string \<Rightarrow> string" where
  "replace_first [] old new = (if old = [] then new else [])"
| "replace_first (c # cs) old new =
     (if startswith (c # cs) old then new @ drop (length old) (c # cs)
      else c # replace_first cs old new)"


section \<open>Python values and dictionaries\<close>

text \<open>
  The values that occur in result rows: \<^verbatim>\<open>None\<close>, integers, text, and reals, which are
  carried as the text Python prints for them (floating point is not modelled).
  A \<^verbatim>\<open>dict\<close> is an association list with distinct keys in insertion order.
\<close>

datatype pyval = PNone | PInt int | PStr string | PReal string

type_synonym row = "(string \<times> pyval) list"

fun dict_set :: "('k \<times> 'v) list \<Rightarrow> 'k \<Rightarrow> 'v \<Rightarrow> ('k \<times> 'v) list" where
  "dict_set [] k v = [(k, v)]"
| "dict_set ((k', v') # d) k v = (if k' = k then (k, v) # d else (k', v') # dict_set d k v)"

definition dict_of_pairs :: "('k \<times> 'v) list \<Rightarrow> ('k \<times> 'v) list" where
  "dict_of_pairs ps = foldl (\<lambda>d (k, v). dict_set d k v) [] ps"

definition dict_get :: "('k \<times> 'v) list \<Rightarrow> 'k \<Rightarrow> 'v option" where
  "dict_get d k = map_of d k"

definition has_key :: "('k \<times> 'v) list \<Rightarrow> 'k \<Rightarrow> bool" where
  "has_key d k = (dict_get d k \<noteq> None)"

definition keys :: "('k \<times> 'v) list \<Rightarrow> 'k list" where
  "keys d = map fst d"

section \<open>The regular expressions of the \<^verbatim>\<open>re\<close> module, as far as the pipeline uses them\<close>

text \<open>
  A backtracking matcher for the constructs of the two patterns of \<^verbatim>\<open>ensure_aliases\<close>:
  literal characters, \<^verbatim>\<open>\s\<close>, \<^verbatim>\<open>\w\<close>, \<^verbatim>\<open>.\<close>, \<^verbatim>\<open>[^c]\<close>, the quantifiers
  \<^verbatim>\<open>*\<close>, \<^verbatim>\<open>+\<close> and \<^verbatim>\<open>*?\<close> on one-character atoms, sequence, numbered groups and
  negative lookahead, under the flags \<^verbatim>\<open>i\<close> (ignore case) and \<^verbatim>\<open>s\<close> (dot matches all).
  A match attempt returns every way to match, in the order in which a backtracking
  engine tries them: the head of the list is the match Python reports.
\<close>

definition word_chars :: "char list" where
  "word_chars =
     ''0123456789ABCDEFGHIJKLMNOPQRSTUVWXYZ_abcdefghijklmnopqrstuvwxyz''
     @ [CHR 0xAA, CHR 0xB2, CHR 0xB3, CHR 0xB5, CHR 0xB9, CHR 0xBA, CHR 0xBC, CHR 0xBD,
      CHR 0xBE, CHR 0xC0, CHR 0xC1, CHR 0xC2, CHR 0xC3, CHR 0xC4, CHR 0xC5, CHR 0xC6,
      CHR 0xC7, CHR 0xC8, CHR 0xC9, CHR 0xCA, CHR 0xCB, CHR 0xCC, CHR 0xCD, CHR 0xCE,
      CHR 0xCF, CHR 0xD0, CHR 0xD1, CHR 0xD2, CHR 0xD3, CHR 0xD4, CHR 0xD5, CHR 0xD6,
      CHR 0xD8, CHR 0xD9, CHR 0xDA, CHR 0xDB, CHR 0xDC, CHR 0xDD, CHR 0xDE, CHR 0xDF,
      CHR 0xE0, CHR 0xE1, CHR 0xE2, CHR 0xE3, CHR 0xE4, CHR 0xE5, CHR 0xE6, CHR 0xE7,
      CHR 0xE8, CHR 0xE9, CHR 0xEA, CHR 0xEB, CHR 0xEC, CHR 0xED, CHR 0xEE, CHR 0xEF,
      CHR 0xF0, CHR 0xF1, CHR 0xF2, CHR 0xF3, CHR 0xF4, CHR 0xF5, CHR 0xF6, CHR 0xF8,
      CHR 0xF9, CHR 0xFA, CHR 0xFB, CHR 0xFC, CHR 0xFD, CHR 0xFE, CHR 0xFF]"

definition is_word :: "char \<Rightarrow> bool" where
  "is_word c = (c \<in> set word_chars)"

datatype atom = Lit char | Space | Word | Dot | NotChar char

datatype regex =
    Eps
  | Atom atom
  | Star atom
  | Plus atom
  | LazyStar atom
  | Seq regex regex
  | Group nat regex
  | NotAhead regex

type_synonym caps = "(nat \<times> string) list"

fun atom_ok :: "bool \<Rightarrow> bool \<Rightarrow> atom \<Rightarrow> char \<Rightarrow> bool" where
  "atom_ok icase dotall (Lit p) c = (if icase then lower_char c = lower_char p else c = p)"
| "atom_ok icase dotall Space c = is_space c"
| "atom_ok icase dotall Word c = is_word c"
| "atom_ok icase dotall Dot c = (dotall \<or> c \<noteq> CHR 0x0A)"
| "atom_ok icase dotall (NotChar p) c = (if icase then lower_char c \<noteq> lower_char p else c \<noteq> p)"

text \<open>The remainders after a greedy and after a lazy repetition, in backtracking order.\<close>

fun greedy_star :: "(char \<Rightarrow> bool) \<Rightarrow> string \<Rightarrow> string list" where
  "greedy_star p [] = [[]]"
| "greedy_star p (c # cs) = (if p c then greedy_star p cs @ [c # cs] else [c # cs])"

fun lazy_star :: "(char \<Rightarrow> bool) \<Rightarrow> string \<Rightarrow> string list" where
  "lazy_star p [] = [[]]"
| "lazy_star p (c # cs) = (c # cs) # (if p c then lazy_star p cs else [])"

fun rmatch :: "bool \<Rightarrow> bool \<Rightarrow> regex \<Rightarrow> string \<times> caps \<Rightarrow> (string \<times> caps) list" where
  "rmatch i d Eps st = [st]"
| "rmatch i d (Atom a) (s, cp) =
     (case s of [] \<Rightarrow> [] | c # cs \<Rightarrow> if atom_ok i d a c then [(cs, cp)] else [])"
| "rmatch i d (Star a) (s, cp) = map (\<lambda>r. (r, cp)) (greedy_star (atom_ok i d a) s)"
| "rmatch i d (Plus a) (s, cp) =
     (case s of [] \<Rightarrow> []
      | c # cs \<Rightarrow> if atom_ok i d a c then map (\<lambda>r. (r, cp)) (greedy_star (atom_ok i d a) cs) else [])"
| "rmatch i d (LazyStar a) (s, cp) = map (\<lambda>r. (r, cp)) (lazy_star (atom_ok i d a) s)"
| "rmatch i d (Seq r1 r2) st = concat (map (rmatch i d r2) (rmatch i d r1 st))"
| "rmatch i d (Group n r) (s, cp) =
     map (\<lambda>(s', cp'). (s', dict_set cp' n (take (length s - length s') s))) (rmatch i d r (s, cp))"
| "rmatch i d (NotAhead r) st = (if rmatch i d r st = [] then [st] else [])"

text \<open>
  \<^verbatim>\<open>re.match\<close>: the first match at the start of the text, as the matched text, the groups
  and the remainder.
\<close>

definition re_match :: "bool \<Rightarrow> bool \<Rightarrow> regex \<Rightarrow> string \<Rightarrow> (string \<times> caps \<times> string) option" where
  "re_match i d r s =
     (case rmatch i d r (s, []) of
        [] \<Rightarrow> None
      | (rest, cp) # _ \<Rightarrow> Some (take (length s - length rest) s, cp, rest))"

text \<open>\<^verbatim>\<open>m.group(n)\<close> of a group that took part in the match.\<close>

definition group :: "caps \<Rightarrow> nat \<Rightarrow> string" where
  "group cp n = (case dict_get cp n of None \<Rightarrow> [] | Some g \<Rightarrow> g)"

text \<open>
  \<^verbatim>\<open>re.sub\<close>: the non-overlapping matches from the left, each replaced by the expansion of
  the template; an empty match is replaced and the scan moves on by one character.
\<close>

function re_sub :: "bool \<Rightarrow> bool \<Rightarrow> regex \<Rightarrow> (caps \<Rightarrow> string) \<Rightarrow> string \<Rightarrow> string" where
  "re_sub i d r repl s =
     (case re_match i d r s of
        None \<Rightarrow> (case s of [] \<Rightarrow> [] | c # cs \<Rightarrow> c # re_sub i d r repl cs)
      | Some (m, cp, rest) \<Rightarrow>
          if length rest < length s then repl cp @ re_sub i d r repl rest
          else repl cp @ (case s of [] \<Rightarrow> [] | c # cs \<Rightarrow> c # re_sub i d r repl cs))"
  by pat_completeness auto
termination
  by (relation "measure (\<lambda>(i, d, r, repl, s). length s)") auto

definition seq :: "regex list \<Rightarrow> regex" where
  "seq rs = foldr Seq rs Eps"

definition lit :: "string \<Rightarrow> regex" where
  "lit s = seq (map (\<lambda>c. Atom (Lit c)) s)"

section \<open>Alias normalisation\<close>

text \<open>\<^verbatim>\<open>(?is)\s*select\s+(.*?)\s+from\s+\<close>\<close>

definition select_re :: regex where
  "select_re =
     seq [Star Space, lit ''select'', Plus Space, Group 1 (LazyStar Dot),
          Plus Space, lit ''from'', Plus Space]"

text \<open>\<^verbatim>\<open>(?i)(FUNC\s*\(\s*[^)]+\s*\))(?!(\s+AS\s+\w))\<close>\<close>

definition agg_re :: "string \<Rightarrow> regex" where
  "agg_re func =
     seq [Group 1 (seq [lit func, Star Space, Atom (Lit CHR ''(''), Star Space,
                        Plus (NotChar CHR '')''), Star Space, Atom (Lit CHR '')'')]),
          NotAhead (Group 2 (seq [Plus Space, lit ''AS'', Plus Space, Atom Word]))]"

definition AGG_FUNCS :: "string list" where
  "AGG_FUNCS = [''COUNT'', ''SUM'', ''AVG'', ''MIN'', ''MAX'']"

definition patch :: "string \<Rightarrow> string \<Rightarrow> string \<Rightarrow> string" where
  "patch select_text func alias =
     re_sub True False (agg_re func) (\<lambda>cp. group cp 1 @ '' AS '' @ alias) select_text"

text \<open>The five calls of \<^verbatim>\<open>patch\<close>, each on the result of the one before.\<close>

definition patch_all :: "string \<Rightarrow> string" where
  "patch_all select_part =
     patch (patch (patch (patch (patch select_part ''COUNT'' ''count'') ''SUM'' ''total'')
                    ''AVG'' ''average'') ''MIN'' ''min'') ''MAX'' ''max''"

text \<open>The last line: \<^verbatim>\<open>sql if patched == select_part else sql.replace(select_part, patched, 1)\<close>.\<close>

definition replace_if_changed :: "string \<Rightarrow> string \<Rightarrow> string \<Rightarrow> string" where
  "replace_if_changed sql select_part patched =
     (if patched = select_part then sql else replace_first sql select_part patched)"

text \<open>
  What \<^verbatim>\<open>ensure_aliases\<close> does with the outcome of \<^verbatim>\<open>re.match\<close>: no match returns the
  text as it is; a match patches group 1.
\<close>

fun alias_of_match :: "string \<Rightarrow> (string \<times> caps \<times> string) option \<Rightarrow> string" where
  "alias_of_match sql None = sql"
| "alias_of_match sql (Some (m, cp, rest)) =
     replace_if_changed sql (group cp 1) (patch_all (group cp 1))"

definition ensure_aliases :: "string \<Rightarrow> string" where
  "ensure_aliases sql = alias_of_match sql (re_match True True select_re sql)"

section \<open>Stripping code fences\<close>

definition fence_sql :: string where
  "fence_sql = ''```sql''"

definition fence :: string where
  "fence = ''```''"

definition clean_code_fences :: "string \<Rightarrow> string option" where
  "clean_code_fences text =
     (if py_in fence_sql text then
        (case py_index (py_split text fence_sql) 1 of
           None \<Rightarrow> None
         | Some inner \<Rightarrow>
             (case py_index (py_split inner fence) 0 of
                None \<Rightarrow> None
              | Some body \<Rightarrow> Some (strip body)))
      else if py_in fence text then
        (case py_index (py_split text fence) 1 of
           None \<Rightarrow> None
         | Some body \<Rightarrow> Some (strip body))
      else Some (strip text))"

text \<open>
  The words of the specification: the text before the first occurrence of a marker
  (all of it when the marker does not occur) and the text after the first occurrence.
\<close>

fun before_first :: "string \<Rightarrow> string \<Rightarrow> string" where
  "before_first sep [] = []"
| "before_first sep (c # cs) = (if startswith (c # cs) sep then [] else c # before_first sep cs)"

fun after_first :: "string \<Rightarrow> string \<Rightarrow> string" where
  "after_first sep [] = []"
| "after_first sep (c # cs) =
     (if startswith (c # cs) sep then drop (length sep) (c # cs) else after_first sep cs)"

section \<open>The database engine as the pipeline sees it\<close>

text \<open>
  The SQLite connection is an external collaborator. It is a parameter of the model: a state
  of any type and one operation for each call the pipeline makes on the connection and its
  cursor. Every operation may raise; the exception is kept as its text (\<^verbatim>\<open>str(e)\<close>).
  The attributes \<^verbatim>\<open>description\<close>, \<^verbatim>\<open>rowcount\<close> and \<^verbatim>\<open>lastrowid\<close> of the cursor are what
  \<^verbatim>\<open>execute\<close> leaves behind; \<open>description\<close> is reduced to the column names, the only part
  the pipeline reads.
\<close>

type_synonym exn = string

record cursor =
  description :: "string list option"
  rowcount :: int
  lastrowid :: "int option"

record 'e engine =
  eng_connect :: "'e \<Rightarrow> (exn + unit) \<times> 'e"
  eng_execute :: "string \<Rightarrow> 'e \<Rightarrow> (exn + cursor) \<times> 'e"
  eng_fetchall :: "'e \<Rightarrow> (exn + pyval list list) \<times> 'e"
  eng_commit :: "'e \<Rightarrow> (exn + unit) \<times> 'e"
  eng_rollback :: "'e \<Rightarrow> (exn + unit) \<times> 'e"
  eng_close :: "'e \<Rightarrow> (exn + unit) \<times> 'e"

text \<open>The world: the engine's state and the log of the calls made on it, with their outcomes.\<close>

datatype call = Connect | Execute string | Fetchall | Commit | Rollback | Close

datatype reply = Raised exn | Done | Opened cursor | Rows "pyval list list"

record 'e world =
  est :: 'e
  calls :: "(call \<times> reply) list"

type_synonym ('e, 'a) io = "'e world \<Rightarrow> (exn + 'a) \<times> 'e world"

fun logged :: "call \<Rightarrow> ('a \<Rightarrow> reply) \<Rightarrow> (call \<times> reply) list \<Rightarrow> (exn + 'a) \<times> 'e
               \<Rightarrow> (exn + 'a) \<times> 'e world" where
  "logged c rep log (Inl e, s) = (Inl e, \<lparr>est = s, calls = log @ [(c, Raised e)]\<rparr>)"
| "logged c rep log (Inr a, s) = (Inr a, \<lparr>est = s, calls = log @ [(c, rep a)]\<rparr>)"

definition sqlite3_connect :: "'e engine \<Rightarrow> ('e, unit) io" where
  "sqlite3_connect eng w = logged Connect (\<lambda>_. Done) (calls w) (eng_connect eng (est w))"

definition cursor_execute :: "'e engine \<Rightarrow> string \<Rightarrow> ('e, cursor) io" where
  "cursor_execute eng stmt w = logged (Execute stmt) Opened (calls w) (eng_execute eng stmt (est w))"

definition cursor_fetchall :: "'e engine \<Rightarrow> ('e, pyval list list) io" where
  "cursor_fetchall eng w = logged Fetchall Rows (calls w) (eng_fetchall eng (est w))"

definition conn_commit :: "'e engine \<Rightarrow> ('e, unit) io" where
  "conn_commit eng w = logged Commit (\<lambda>_. Done) (calls w) (eng_commit eng (est w))"

definition conn_rollback :: "'e engine \<Rightarrow> ('e, unit) io" where
  "conn_rollback eng w = logged Rollback (\<lambda>_. Done) (calls w) (eng_rollback eng (est w))"

definition conn_close :: "'e engine \<Rightarrow> ('e, unit) io" where
  "conn_close eng w = logged Close (\<lambda>_. Done) (calls w) (eng_close eng (est w))"

text \<open>Sequencing: an exception ends the block it is raised in.\<close>

fun bind_step :: "('a \<Rightarrow> ('e, 'b) io) \<Rightarrow> (exn + 'a) \<times> 'e world \<Rightarrow> (exn + 'b) \<times> 'e world" where
  "bind_step f (Inl e, w) = (Inl e, w)"
| "bind_step f (Inr a, w) = f a w"

definition bind_io :: "('e, 'a) io \<Rightarrow> ('a \<Rightarrow> ('e, 'b) io) \<Rightarrow> ('e, 'b) io" where
  "bind_io m f w = bind_step f (m w)"

definition return_io :: "'a \<Rightarrow> ('e, 'a) io" where
  "return_io a w = (Inr a, w)"

text \<open>\<^verbatim>\<open>try: ... except Exception: pass\<close>\<close>

fun swallow :: "(exn + 'a) \<times> 'e world \<Rightarrow> (exn + unit) \<times> 'e world" where
  "swallow (Inl e, w) = (Inr (), w)"
| "swallow (Inr a, w) = (Inr (), w)"

definition try_pass :: "('e, 'a) io \<Rightarrow> ('e, unit) io" where
  "try_pass m w = swallow (m w)"

section \<open>Splitting into statements\<close>

definition statements_of :: "string \<Rightarrow> string list" where
  "statements_of sql_query =
     map strip (filter (\<lambda>s. strip s \<noteq> []) (py_split (strip sql_query) '';''))"

text \<open>\<^verbatim>\<open>stmt.lstrip().upper().startswith("SELECT")\<close>\<close>

definition is_select :: "string \<Rightarrow> bool" where
  "is_select stmt = startswith (upper (lstrip stmt)) ''SELECT''"

section \<open>\<^verbatim>\<open>execute_sql_query\<close>\<close>

record acc =
  total_rows_affected :: int
  last_row_id :: "int option"
  select_result :: "row list"

definition cols_of :: "cursor \<Rightarrow> string list" where
  "cols_of cur = (case description cur of None \<Rightarrow> [] | Some ds \<Rightarrow> ds)"

definition rows_as_dicts :: "string list \<Rightarrow> pyval list list \<Rightarrow> row list" where
  "rows_as_dicts cols rows = map (\<lambda>r. dict_of_pairs (zip cols r)) rows"

definition add_rowcount :: "int \<Rightarrow> cursor \<Rightarrow> int" where
  "add_rowcount n cur = (if rowcount cur \<noteq> - 1 then n + rowcount cur else n)"

fun exec_loop :: "'e engine \<Rightarrow> string list \<Rightarrow> acc \<Rightarrow> ('e, acc) io" where
  "exec_loop eng [] a w = (Inr a, w)"
| "exec_loop eng (stmt # rest) a w =
     (if is_select stmt then
        bind_io (cursor_execute eng stmt) (\<lambda>cur.
        bind_io (cursor_fetchall eng) (\<lambda>rows.
        exec_loop eng rest (a\<lparr>select_result := rows_as_dicts (cols_of cur) rows\<rparr>))) w
      else
        bind_io (cursor_execute eng stmt) (\<lambda>cur.
        bind_io (conn_commit eng) (\<lambda>_.
        exec_loop eng rest
          (a\<lparr>total_rows_affected := add_rowcount (total_rows_affected a) cur,
             last_row_id := lastrowid cur\<rparr>))) w)"

definition opt_int :: "int option \<Rightarrow> pyval" where
  "opt_int v = (case v of None \<Rightarrow> PNone | Some i \<Rightarrow> PInt i)"

definition final_result :: "string list \<Rightarrow> acc \<Rightarrow> row list" where
  "final_result statements a =
     (if is_select (last statements) then select_result a
      else [[(''rows_affected'', PInt (total_rows_affected a)),
             (''last_row_id'', opt_int (last_row_id a))]])"

definition exec_statements :: "'e engine \<Rightarrow> string list \<Rightarrow> ('e, row list) io" where
  "exec_statements eng statements =
     (if statements = [] then return_io [[(''error'', PStr ''Empty SQL'')]]
      else bind_io (exec_loop eng statements
                      \<lparr>total_rows_affected = 0, last_row_id = None, select_result = []\<rparr>) (\<lambda>a.
           bind_io (conn_close eng) (\<lambda>_.
           return_io (final_result statements a))))"

text \<open>The body of the \<^verbatim>\<open>try\<close> block.\<close>

definition exec_body :: "'e engine \<Rightarrow> string \<Rightarrow> ('e, row list) io" where
  "exec_body eng sql_query =
     bind_io (sqlite3_connect eng) (\<lambda>_. exec_statements eng (statements_of sql_query))"

text \<open>\<^verbatim>\<open>except Exception as e: return [{"error": f"Error executing query: {str(e)}"}]\<close>\<close>

fun catch_execute :: "(exn + row list) \<times> 'e world \<Rightarrow> row list \<times> 'e world" where
  "catch_execute (Inl e, w) = ([[(''error'', PStr (''Error executing query: '' @ e))]], w)"
| "catch_execute (Inr r, w) = (r, w)"

definition execute_sql_query :: "'e engine \<Rightarrow> string \<Rightarrow> 'e world \<Rightarrow> row list \<times> 'e world" where
  "execute_sql_query eng sql_query w = catch_execute (exec_body eng sql_query w)"

section \<open>\<^verbatim>\<open>validate_sql_query\<close>\<close>

text \<open>
  The two dictionaries the validator returns: \<^verbatim>\<open>{"valid": True, "plan": plans}\<close> and
  \<^verbatim>\<open>{"valid": False, "error": message}\<close>.
\<close>

datatype validation = Valid "pyval list list list" | Invalid string

fun get_valid :: "validation \<Rightarrow> bool" where
  "get_valid (Valid plans) = True"
| "get_valid (Invalid msg) = False"

fun get_error :: "validation \<Rightarrow> string option" where
  "get_error (Valid plans) = None"
| "get_error (Invalid msg) = Some msg"

fun validate_loop :: "'e engine \<Rightarrow> string list \<Rightarrow> pyval list list list
                       \<Rightarrow> ('e, pyval list list list) io" where
  "validate_loop eng [] plans w = (Inr plans, w)"
| "validate_loop eng (stmt # rest) plans w =
     (if is_select stmt then
        bind_io (cursor_execute eng (''EXPLAIN QUERY PLAN '' @ stmt)) (\<lambda>_.
        bind_io (cursor_fetchall eng) (\<lambda>rows.
        validate_loop eng rest (plans @ [rows]))) w
      else
        bind_io (try_pass (bind_io (cursor_execute eng stmt) (\<lambda>_. conn_rollback eng))) (\<lambda>_.
        validate_loop eng rest plans) w)"

definition validate_statements :: "'e engine \<Rightarrow> string list \<Rightarrow> ('e, validation) io" where
  "validate_statements eng statements =
     (if statements = [] then return_io (Invalid ''Empty SQL'')
      else bind_io (validate_loop eng statements []) (\<lambda>plans.
           bind_io (conn_close eng) (\<lambda>_.
           return_io (Valid plans))))"

definition validate_body :: "'e engine \<Rightarrow> string \<Rightarrow> ('e, validation) io" where
  "validate_body eng sql_query =
     bind_io (sqlite3_connect eng) (\<lambda>_. validate_statements eng (statements_of sql_query))"

fun catch_validate :: "(exn + validation) \<times> 'e world \<Rightarrow> validation \<times> 'e world" where
  "catch_validate (Inl e, w) = (Invalid e, w)"
| "catch_validate (Inr v, w) = (v, w)"

definition validate_sql_query :: "'e engine \<Rightarrow> string \<Rightarrow> 'e world \<Rightarrow> validation \<times> 'e world" where
  "validate_sql_query eng sql_query w = catch_validate (validate_body eng sql_query w)"

section \<open>Rendering\<close>












section \<open>The pipeline nodes\<close>

text \<open>
  A reply is text that leaves Latin-1: the prefix of an error reply in \<^verbatim>\<open>agent.py\<close> is the
  two characters U+00E2 and U+0152, and the second has no \<^typ>\<open>char\<close>. A reply is therefore
  a list of code points; \<open>points\<close> gives the code points of Latin-1 text.
\<close>

type_synonym utext = "nat list"



record chat_state =
  user_query :: string
  sql_query :: "string option"
  query_result :: "row list option"
  final_response :: "utext option"

text \<open>\<^verbatim>\<open>state.get("sql_query") or ""\<close> and \<^verbatim>\<open>state.get("query_result", []) or []\<close>\<close>

fun or_empty :: "'a list option \<Rightarrow> 'a list" where
  "or_empty None = []"
| "or_empty (Some s) = s"

text \<open>What an f-string prints for \<^verbatim>\<open>valid.get('error')\<close>.\<close>

fun fmt_opt :: "string option \<Rightarrow> string" where
  "fmt_opt None = ''None''"
| "fmt_opt (Some s) = s"

text \<open>
  The second validation: when the first one rejects and \<^verbatim>\<open>ensure_aliases\<close> changes the
  text, the changed text is validated and replaces the query.
\<close>

definition retry_fixed :: "'e engine \<Rightarrow> string \<Rightarrow> string \<Rightarrow> validation \<Rightarrow> 'e world
                            \<Rightarrow> string \<times> validation \<times> 'e world" where
  "retry_fixed eng sql fixed valid w =
     (if fixed \<noteq> sql then (fixed, validate_sql_query eng fixed w) else (sql, valid, w))"

fun revalidate :: "'e engine \<Rightarrow> string \<Rightarrow> validation \<times> 'e world \<Rightarrow> string \<times> validation \<times> 'e world" where
  "revalidate eng sql (valid, w) =
     (if \<not> get_valid valid then retry_fixed eng sql (ensure_aliases sql) valid w
      else (sql, valid, w))"

fun store_result :: "chat_state \<Rightarrow> row list \<times> 'e world \<Rightarrow> chat_state \<times> 'e world" where
  "store_result state (result, w) =
     (state\<lparr>query_result := Some result, final_response := Some []\<rparr>, w)"

fun run_validated :: "'e engine \<Rightarrow> chat_state \<Rightarrow> string \<times> validation \<times> 'e world
                       \<Rightarrow> chat_state \<times> 'e world" where
  "run_validated eng state (sql, valid, w) =
     (if \<not> get_valid valid then
        (state\<lparr>query_result := Some [[(''error'', PStr (''Invalid query: '' @ fmt_opt (get_error valid)))]],
               final_response := Some []\<rparr>, w)
      else store_result state (execute_sql_query eng sql w))"

definition executor_on :: "'e engine \<Rightarrow> chat_state \<Rightarrow> string \<Rightarrow> 'e world \<Rightarrow> chat_state \<times> 'e world" where
  "executor_on eng state sql w =
     (if sql = [] then
        (state\<lparr>query_result := Some [[(''error'', PStr ''No SQL query provided'')]],
               final_response := Some []\<rparr>, w)
      else run_validated eng state (revalidate eng sql (validate_sql_query eng sql w)))"

definition query_executor_node :: "'e engine \<Rightarrow> chat_state \<Rightarrow> 'e world \<Rightarrow> chat_state \<times> 'e world" where
  "query_executor_node eng state w = executor_on eng state (strip (or_empty (sql_query state))) w"








section \<open>A small transactional engine\<close>

text \<open>
  One table \<open>t\<close> with one integer column \<open>x\<close>, a committed and a working copy, and the
  rows of the last result set. It knows four statements and raises a syntax error on any
  other. It serves to run the pipeline on concrete inputs.
\<close>

record toy =
  committed :: "int list"
  working :: "int list"
  pending :: "pyval list list"

definition toy_execute :: "string \<Rightarrow> toy \<Rightarrow> (exn + cursor) \<times> toy" where
  "toy_execute stmt s =
     (if stmt = ''INSERT INTO t VALUES (7)'' then
        (Inr \<lparr>description = None, rowcount = 1, lastrowid = Some (int (length (working s)) + 1)\<rparr>,
         s\<lparr>working := working s @ [7], pending := []\<rparr>)
      else if stmt = ''DELETE FROM t'' then
        (Inr \<lparr>description = None, rowcount = int (length (working s)), lastrowid = None\<rparr>,
         s\<lparr>working := [], pending := []\<rparr>)
      else if stmt = ''SELECT x FROM t'' then
        (Inr \<lparr>description = Some [''x''], rowcount = - 1, lastrowid = None\<rparr>,
         s\<lparr>pending := map (\<lambda>v. [PInt v]) (working s)\<rparr>)
      else if stmt = ''EXPLAIN QUERY PLAN SELECT x FROM t'' then
        (Inr \<lparr>description = Some [''id'', ''parent'', ''notused'', ''detail''], rowcount = - 1,
              lastrowid = None\<rparr>,
         s\<lparr>pending := [[PInt 2, PInt 0, PInt 0, PStr ''SCAN t'']]\<rparr>)
      else (Inl ''syntax error'', s))"

definition toy_engine :: "toy engine" where
  "toy_engine =
     \<lparr>eng_connect = (\<lambda>s. (Inr (), s\<lparr>working := committed s, pending := []\<rparr>)),
      eng_execute = toy_execute,
      eng_fetchall = (\<lambda>s. (Inr (pending s), s\<lparr>pending := []\<rparr>)),
      eng_commit = (\<lambda>s. (Inr (), s\<lparr>committed := working s\<rparr>)),
      eng_rollback = (\<lambda>s. (Inr (), s\<lparr>working := committed s\<rparr>)),
      eng_close = (\<lambda>s. (Inr (), s\<lparr>working := committed s, pending := []\<rparr>))\<rparr>"

definition toy_world :: "int list \<Rightarrow> toy world" where
  "toy_world xs = \<lparr>est = \<lparr>committed = xs, working = xs, pending = []\<rparr>, calls = []\<rparr>"

section \<open>Reading the call log\<close>

text \<open>The calls one statement causes in \<^verbatim>\<open>execute_sql_query\<close> when nothing raises.\<close>

definition second_call :: "string \<Rightarrow> call" where
  "second_call stmt = (if is_select stmt then Fetchall else Commit)"

definition stmt_calls :: "string \<Rightarrow> call list" where
  "stmt_calls stmt = [Execute stmt, second_call stmt]"

text \<open>The row counts that the executed writes of a log reported (\<open>- 1\<close> means none).\<close>

fun write_counts :: "(call \<times> reply) list \<Rightarrow> int list" where
  "write_counts [] = []"
| "write_counts ((Execute s, Opened c) # evs) =
     (if \<not> is_select s \<and> rowcount c \<noteq> - 1 then rowcount c # write_counts evs
      else write_counts evs)"
| "write_counts (ev # evs) = write_counts evs"

text \<open>Every write that executed is followed at once by a call of commit.\<close>

fun followed_by_commit :: "(call \<times> reply) list \<Rightarrow> bool" where
  "followed_by_commit [] = False"
| "followed_by_commit (ev # evs) = (fst ev = Commit)"

fun commits_follow :: "(call \<times> reply) list \<Rightarrow> bool" where
  "commits_follow [] = True"
| "commits_follow ((Execute s, Opened c) # evs) =
     ((is_select s \<or> followed_by_commit evs) \<and> commits_follow evs)"
| "commits_follow (ev # evs) = commits_follow evs"

fun is_raised :: "reply \<Rightarrow> bool" where
  "is_raised (Raised e) = True"
| "is_raised r = False"

text \<open>The calls made between two worlds.\<close>

definition new_calls :: "'e world \<Rightarrow> 'e world \<Rightarrow> (call \<times> reply) list" where
  "new_calls w w' = drop (length (calls w)) (calls w')"

section \<open>Aggregate calls, in the words of the specification\<close>

text \<open>A text begins with a name, compared without regard to case.\<close>

fun ci_prefix :: "string \<Rightarrow> string \<Rightarrow> bool" where
  "ci_prefix [] s = True"
| "ci_prefix (p # ps) [] = False"
| "ci_prefix (p # ps) (c # cs) = (lower_char c = lower_char p \<and> ci_prefix ps cs)"

text \<open>
  A piece of text without a closing parenthesis begins a call of \<open>func\<close>: the name, optional
  whitespace, an opening parenthesis and at least one more character. The call then runs up
  to the closing parenthesis that ends the piece.
\<close>

definition call_here :: "string \<Rightarrow> string \<Rightarrow> bool" where
  "call_here func g =
     (ci_prefix func g \<and>
      (case dropWhile is_space (drop (length func) g) of
         [] \<Rightarrow> False
       | c # t \<Rightarrow> c = CHR ''('' \<and> t \<noteq> []))"

fun has_call :: "string \<Rightarrow> string \<Rightarrow> bool" where
  "has_call func [] = False"
| "has_call func (c # g) = (call_here func (c # g) \<or> has_call func g)"

text \<open>
  The text after a call carries an alias: whitespace, \<^verbatim>\<open>AS\<close> in either case, whitespace and
  a word character.
\<close>

definition after_as :: "string \<Rightarrow> bool" where
  "after_as b = (dropWhile is_space b \<noteq> b \<and> dropWhile is_space b \<noteq> []
                 \<and> is_word (hd (dropWhile is_space b)))"

definition aliased :: "string \<Rightarrow> bool" where
  "aliased s = (dropWhile is_space s \<noteq> s \<and> ci_prefix ''AS'' (dropWhile is_space s)
                \<and> after_as (drop 2 (dropWhile is_space s)))"

section \<open>Properties of the string primitives\<close>

lemma split_from_unfold:
  "sep \<noteq> [] \<Longrightarrow> split_from sep cur s =
     (cur @ before_first sep s) # (if py_in sep s then split_from sep [] (after_first sep s) else [])"
proof (induction sep cur s rule: split_from.induct)
  case (1 sep cur s)
  show ?case
  proof (cases s)
    case Nil
    with 1(3) show ?thesis by simp
  next
    case (Cons c cs)
    show ?thesis
    proof (cases "startswith s sep")
      case True
      with Cons 1(3) show ?thesis by (subst split_from.simps) simp
    next
      case False
      with Cons 1(3) 1(2) show ?thesis by (subst split_from.simps) simp
    qed
  qed
qed

lemma split_piece0: "sep \<noteq> [] \<Longrightarrow> py_index (py_split s sep) 0 = Some (before_first sep s)"
  by (subst py_split_def, subst split_from_unfold) (simp_all add: py_index_def)

lemma split_piece1:
  "sep \<noteq> [] \<Longrightarrow> py_in sep s \<Longrightarrow>
   py_index (py_split s sep) (Suc 0) = Some (before_first sep (after_first sep s))"
  apply (subst py_split_def, subst split_from_unfold, assumption)
  apply (subst split_from_unfold, assumption)
  apply (simp add: py_index_def)
  done

lemma startswith_append: "startswith s (a @ b) \<Longrightarrow> startswith s a"
  by (induction s a rule: startswith.induct) auto

lemma py_in_append: "py_in (a @ b) s \<Longrightarrow> py_in a s"
  by (induction s) (auto dest: startswith_append)

lemma fence_in_fence_sql: "py_in fence_sql t \<Longrightarrow> py_in fence t"
proof -
  have "fence_sql = fence @ ''sql''" by (simp add: fence_def fence_sql_def)
  then show "py_in fence_sql t \<Longrightarrow> py_in fence t"
    using py_in_append [of fence "''sql''" t] by simp
qed

lemma before_first_absent: "\<not> py_in sep s \<Longrightarrow> before_first sep s = s"
  by (induction s) auto

section \<open>Code fences\<close>

text \<open>
  C10, as stated, at the text \<^verbatim>\<open>```SELECT 1``` x\<close>: it holds a fence but no \<^verbatim>\<open>```sql\<close>, and
  the result is \<^verbatim>\<open>SELECT 1\<close>, the content up to the second fence, while the stripped content
  after the first fence is \<^verbatim>\<open>SELECT 1``` x\<close>.
\<close>

theorem clean_code_fences_after_first_counterexample:
  "py_in fence ''```SELECT 1``` x'' \<and> \<not> py_in fence_sql ''```SELECT 1``` x''
   \<and> clean_code_fences ''```SELECT 1``` x'' = Some ''SELECT 1''
   \<and> strip (after_first fence ''```SELECT 1``` x'') = ''SELECT 1``` x''
   \<and> clean_code_fences ''```SELECT 1``` x'' \<noteq> Some (strip (after_first fence ''```SELECT 1``` x''))"
  by code_simp

text \<open>
  C10, amended. For a text that contains \<^verbatim>\<open>```sql\<close>, \<^verbatim>\<open>clean_code_fences\<close> returns the text
  after the first \<^verbatim>\<open>```sql\<close>, cut at the next \<^verbatim>\<open>```sql\<close> if there is one, then cut at the
  first \<^verbatim>\<open>```\<close> if there is one, and stripped; when no further \<^verbatim>\<open>```sql\<close> follows, that is
  the content between the first \<^verbatim>\<open>```sql\<close> and the next \<^verbatim>\<open>```\<close> (or the end of the text).
  For a text that contains \<^verbatim>\<open>```\<close> but not \<^verbatim>\<open>```sql\<close> it returns the stripped content
  between the first \<^verbatim>\<open>```\<close> and the next \<^verbatim>\<open>```\<close> (or the end of the text). For a text
  without a fence it returns the stripped text. It never fails.
\<close>

theorem clean_code_fences_spec:
  "(py_in fence_sql t \<longrightarrow>
      clean_code_fences t
        = Some (strip (before_first fence (before_first fence_sql (after_first fence_sql t)))))
   \<and> (py_in fence_sql t \<and> \<not> py_in fence_sql (after_first fence_sql t) \<longrightarrow>
      clean_code_fences t = Some (strip (before_first fence (after_first fence_sql t))))
   \<and> (py_in fence t \<and> \<not> py_in fence_sql t \<longrightarrow>
      clean_code_fences t = Some (strip (before_first fence (after_first fence t))))
   \<and> (\<not> py_in fence t \<longrightarrow> clean_code_fences t = Some (strip t))"
proof -
  have ne: "fence \<noteq> []" "fence_sql \<noteq> []"
    by (simp_all add: fence_def fence_sql_def)
  have eq: "clean_code_fences t =
     (if py_in fence_sql t then
        Some (strip (before_first fence (before_first fence_sql (after_first fence_sql t))))
      else if py_in fence t then Some (strip (before_first fence (after_first fence t)))
      else Some (strip t))"
    by (simp add: clean_code_fences_def split_piece0 [OF ne(1)] split_piece1 [OF ne(1)]
        split_piece1 [OF ne(2)])
  show ?thesis
    using fence_in_fence_sql [of t] by (auto simp: eq before_first_absent)
qed

theorem clean_code_fences_spec_witness:
  "py_in fence_sql ''a```sql b ``` c''
   \<and> \<not> py_in fence_sql (after_first fence_sql ''a```sql b ``` c'')
   \<and> clean_code_fences ''a```sql b ``` c''
       = Some (strip (before_first fence (after_first fence_sql ''a```sql b ``` c'')))
   \<and> clean_code_fences ''a```sql b ``` c'' = Some ''b''
   \<and> py_in fence ''``` d ``` e'' \<and> \<not> py_in fence_sql ''``` d ``` e''
   \<and> clean_code_fences ''``` d ``` e'' = Some (strip (before_first fence (after_first fence ''``` d ``` e'')))
   \<and> clean_code_fences ''``` d ``` e'' = Some ''d''
   \<and> \<not> py_in fence '' f '' \<and> clean_code_fences '' f '' = Some ''f''"
proof -
  have a: "py_in fence_sql ''a```sql b ``` c''
      \<and> \<not> py_in fence_sql (after_first fence_sql ''a```sql b ``` c'')"
    by code_simp
  have b: "py_in fence ''``` d ``` e'' \<and> \<not> py_in fence_sql ''``` d ``` e''"
    by code_simp
  have c: "\<not> py_in fence '' f ''"
    by code_simp
  have v: "strip (before_first fence (after_first fence_sql ''a```sql b ``` c'')) = ''b''"
      "strip (before_first fence (after_first fence ''``` d ``` e'')) = ''d''"
      "strip '' f '' = ''f''"
    by code_simp+
  have r1: "clean_code_fences ''a```sql b ``` c''
       = Some (strip (before_first fence (after_first fence_sql ''a```sql b ``` c'')))"
    using clean_code_fences_spec [of "''a```sql b ``` c''"] a by blast
  have r2: "clean_code_fences ''``` d ``` e''
       = Some (strip (before_first fence (after_first fence ''``` d ``` e'')))"
    using clean_code_fences_spec [of "''``` d ``` e''"] b by blast
  have r3: "clean_code_fences '' f '' = Some (strip '' f '')"
    using clean_code_fences_spec [of "'' f ''"] c by blast
  have e1: "clean_code_fences ''a```sql b ``` c'' = Some ''b''"
    using r1 unfolding v(1) .
  have e2: "clean_code_fences ''``` d ``` e'' = Some ''d''"
    using r2 unfolding v(2) .
  have e3: "clean_code_fences '' f '' = Some ''f''"
    using r3 unfolding v(3) .
  from a b c r1 r2 e1 e2 e3 show ?thesis
    by blast
qed

section \<open>Properties of the engine calls and of the statement loop\<close>


lemma dropWhile_all: "(\<forall>c\<in>set s. P c) \<Longrightarrow> dropWhile P s = []"
  by (induction s) auto

lemma strip_whitespace: "(\<forall>c\<in>set s. is_space c) \<Longrightarrow> strip s = []"
  by (simp add: strip_def lstrip_def rstrip_def dropWhile_all)

lemma bind_io_Inr:
  "bind_io m f w = (Inr b, w') \<Longrightarrow> \<exists>a w1. m w = (Inr a, w1) \<and> f a w1 = (Inr b, w')"
proof -
  obtain r w1 where mw: "m w = (r, w1)" by (cases "m w")
  assume "bind_io m f w = (Inr b, w')"
  with mw show ?thesis by (cases r) (auto simp: bind_io_def)
qed

lemma logged_Inr:
  "logged c rep log r = (Inr a, w1) \<Longrightarrow> calls w1 = log @ [(c, rep a)]"
  by (cases "(c, rep, log, r)" rule: logged.cases) auto

lemma logged_Inl:
  "logged c rep log r = (Inl e, w1) \<Longrightarrow> calls w1 = log @ [(c, Raised e)]"
  by (cases "(c, rep, log, r)" rule: logged.cases) auto

lemma cursor_execute_Inr:
  "cursor_execute eng stmt w = (Inr cur, w1) \<Longrightarrow> calls w1 = calls w @ [(Execute stmt, Opened cur)]"
  by (auto simp: cursor_execute_def dest: logged_Inr)

lemma cursor_fetchall_Inr:
  "cursor_fetchall eng w = (Inr rows, w1) \<Longrightarrow> calls w1 = calls w @ [(Fetchall, Rows rows)]"
  by (auto simp: cursor_fetchall_def dest: logged_Inr)

lemma conn_commit_Inr:
  "conn_commit eng w = (Inr u, w1) \<Longrightarrow> calls w1 = calls w @ [(Commit, Done)]"
  by (auto simp: conn_commit_def dest: logged_Inr)

lemma conn_close_Inr:
  "conn_close eng w = (Inr u, w1) \<Longrightarrow> calls w1 = calls w @ [(Close, Done)]"
  by (auto simp: conn_close_def dest: logged_Inr)

lemma sqlite3_connect_Inr:
  "sqlite3_connect eng w = (Inr u, w1) \<Longrightarrow> calls w1 = calls w @ [(Connect, Done)]"
  by (auto simp: sqlite3_connect_def dest: logged_Inr)

lemma exec_loop_select_step:
  assumes "is_select stmt" and "exec_loop eng (stmt # rest) a w = (Inr a', w')"
  shows "\<exists>cur rows w1. calls w1 = calls w @ [(Execute stmt, Opened cur), (Fetchall, Rows rows)]
           \<and> exec_loop eng rest (a\<lparr>select_result := rows_as_dicts (cols_of cur) rows\<rparr>) w1 = (Inr a', w')"
proof -
  from assms have
    "bind_io (cursor_execute eng stmt) (\<lambda>cur.
       bind_io (cursor_fetchall eng) (\<lambda>rows.
       exec_loop eng rest (a\<lparr>select_result := rows_as_dicts (cols_of cur) rows\<rparr>))) w = (Inr a', w')"
    by simp
  from bind_io_Inr [OF this] obtain cur wa where
    1: "cursor_execute eng stmt w = (Inr cur, wa)" and
    2: "bind_io (cursor_fetchall eng) (\<lambda>rows.
          exec_loop eng rest (a\<lparr>select_result := rows_as_dicts (cols_of cur) rows\<rparr>)) wa = (Inr a', w')"
    by blast
  from bind_io_Inr [OF 2] obtain rows w1 where
    3: "cursor_fetchall eng wa = (Inr rows, w1)" and
    4: "exec_loop eng rest (a\<lparr>select_result := rows_as_dicts (cols_of cur) rows\<rparr>) w1 = (Inr a', w')"
    by blast
  from cursor_execute_Inr [OF 1] cursor_fetchall_Inr [OF 3]
  have "calls w1 = calls w @ [(Execute stmt, Opened cur), (Fetchall, Rows rows)]" by simp
  with 4 show ?thesis by blast
qed

lemma exec_loop_write_step:
  assumes "\<not> is_select stmt" and "exec_loop eng (stmt # rest) a w = (Inr a', w')"
  shows "\<exists>cur w1. calls w1 = calls w @ [(Execute stmt, Opened cur), (Commit, Done)]
           \<and> exec_loop eng rest
                (a\<lparr>total_rows_affected := add_rowcount (total_rows_affected a) cur,
                   last_row_id := lastrowid cur\<rparr>) w1 = (Inr a', w')"
proof -
  from assms have
    "bind_io (cursor_execute eng stmt) (\<lambda>cur.
       bind_io (conn_commit eng) (\<lambda>_.
       exec_loop eng rest
         (a\<lparr>total_rows_affected := add_rowcount (total_rows_affected a) cur,
            last_row_id := lastrowid cur\<rparr>))) w = (Inr a', w')"
    by simp
  from bind_io_Inr [OF this] obtain cur wa where
    1: "cursor_execute eng stmt w = (Inr cur, wa)" and
    2: "bind_io (conn_commit eng) (\<lambda>_.
          exec_loop eng rest
                (a\<lparr>total_rows_affected := add_rowcount (total_rows_affected a) cur,
                   last_row_id := lastrowid cur\<rparr>)) wa = (Inr a', w')"
    by blast
  from bind_io_Inr [OF 2] obtain u w1 where
    3: "conn_commit eng wa = (Inr u, w1)" and
    4: "exec_loop eng rest
                (a\<lparr>total_rows_affected := add_rowcount (total_rows_affected a) cur,
                   last_row_id := lastrowid cur\<rparr>) w1 = (Inr a', w')"
    by blast
  from cursor_execute_Inr [OF 1] conn_commit_Inr [OF 3]
  have "calls w1 = calls w @ [(Execute stmt, Opened cur), (Commit, Done)]" by simp
  with 4 show ?thesis by blast
qed

lemma write_counts_append: "write_counts (xs @ ys) = write_counts xs @ write_counts ys"
  by (induction xs rule: write_counts.induct) auto

lemma exec_loop_log:
  "exec_loop eng stmts a w = (Inr a', w') \<Longrightarrow>
   \<exists>evs. calls w' = calls w @ evs \<and> map fst evs = concat (map stmt_calls stmts)
     \<and> total_rows_affected a' = total_rows_affected a + sum_list (write_counts evs)"
proof (induction stmts arbitrary: a w)
  case Nil
  then show ?case by simp
next
  case (Cons stmt rest)
  show ?case
  proof (cases "is_select stmt")
    case True
    from exec_loop_select_step [OF True Cons.prems] obtain cur rows w1 where
      c: "calls w1 = calls w @ [(Execute stmt, Opened cur), (Fetchall, Rows rows)]" and
      r: "exec_loop eng rest (a\<lparr>select_result := rows_as_dicts (cols_of cur) rows\<rparr>) w1 = (Inr a', w')"
      by blast
    from Cons.IH [OF r] obtain evs where
      e: "calls w' = calls w1 @ evs" "map fst evs = concat (map stmt_calls rest)"
         "total_rows_affected a' = total_rows_affected a + sum_list (write_counts evs)"
      by auto
    let ?evs = "[(Execute stmt, Opened cur), (Fetchall, Rows rows)] @ evs"
    have "calls w' = calls w @ ?evs" using c e(1) by simp
    moreover have "map fst ?evs = concat (map stmt_calls (stmt # rest))"
      using e(2) True by (simp add: stmt_calls_def second_call_def)
    moreover have "total_rows_affected a' = total_rows_affected a + sum_list (write_counts ?evs)"
      using e(3) True by simp
    ultimately show ?thesis by blast
  next
    case False
    from exec_loop_write_step [OF False Cons.prems] obtain cur w1 where
      c: "calls w1 = calls w @ [(Execute stmt, Opened cur), (Commit, Done)]" and
      r: "exec_loop eng rest
                (a\<lparr>total_rows_affected := add_rowcount (total_rows_affected a) cur,
                   last_row_id := lastrowid cur\<rparr>) w1 = (Inr a', w')"
      by blast
    from Cons.IH [OF r] obtain evs where
      e: "calls w' = calls w1 @ evs" "map fst evs = concat (map stmt_calls rest)"
         "total_rows_affected a' = add_rowcount (total_rows_affected a) cur + sum_list (write_counts evs)"
      by auto
    let ?evs = "[(Execute stmt, Opened cur), (Commit, Done)] @ evs"
    have "calls w' = calls w @ ?evs" using c e(1) by simp
    moreover have "map fst ?evs = concat (map stmt_calls (stmt # rest))"
      using e(2) False by (simp add: stmt_calls_def second_call_def)
    moreover have "total_rows_affected a' = total_rows_affected a + sum_list (write_counts ?evs)"
      using e(3) False by (simp add: add_rowcount_def)
    ultimately show ?thesis by blast
  qed
qed

lemma exec_loop_last_select:
  "stmts \<noteq> [] \<Longrightarrow> is_select (last stmts) \<Longrightarrow> exec_loop eng stmts a w = (Inr a', w') \<Longrightarrow>
   \<exists>pre cur rows.
     calls w' = calls w @ pre @ [(Execute (last stmts), Opened cur), (Fetchall, Rows rows)]
     \<and> select_result a' = rows_as_dicts (cols_of cur) rows"
proof (induction stmts arbitrary: a w)
  case Nil
  then show ?case by simp
next
  case (Cons stmt rest)
  show ?case
  proof (cases "rest = []")
    case True
    with Cons.prems have sel: "is_select stmt" by simp
    from exec_loop_select_step [OF sel Cons.prems(3)] True obtain cur rows w1 where
      c: "calls w1 = calls w @ [(Execute stmt, Opened cur), (Fetchall, Rows rows)]" and
      r: "a' = a\<lparr>select_result := rows_as_dicts (cols_of cur) rows\<rparr>" "w' = w1"
      by auto
    have "calls w' = calls w @ [] @ [(Execute (last (stmt # rest)), Opened cur), (Fetchall, Rows rows)]"
      using c r True by simp
    moreover have "select_result a' = rows_as_dicts (cols_of cur) rows" using r by simp
    ultimately show ?thesis by blast
  next
    case False
    with Cons.prems have lst: "is_select (last rest)" by simp
    have "\<exists>a1 w1 two. calls w1 = calls w @ two \<and> exec_loop eng rest a1 w1 = (Inr a', w')"
    proof (cases "is_select stmt")
      case True
      from exec_loop_select_step [OF True Cons.prems(3)] show ?thesis by blast
    next
      case False
      from exec_loop_write_step [OF False Cons.prems(3)] show ?thesis by blast
    qed
    then obtain a1 w1 two where
      c: "calls w1 = calls w @ two" and r: "exec_loop eng rest a1 w1 = (Inr a', w')"
      by blast
    from Cons.IH [OF False lst r] obtain pre cur rows where
      e: "calls w' = calls w1 @ pre @ [(Execute (last rest), Opened cur), (Fetchall, Rows rows)]"
         "select_result a' = rows_as_dicts (cols_of cur) rows"
      by blast
    have "calls w' = calls w @ (two @ pre) @ [(Execute (last (stmt # rest)), Opened cur), (Fetchall, Rows rows)]"
      using c e(1) False by simp
    with e(2) show ?thesis by blast
  qed
qed

lemma exec_loop_last_write:
  "stmts \<noteq> [] \<Longrightarrow> \<not> is_select (last stmts) \<Longrightarrow> exec_loop eng stmts a w = (Inr a', w') \<Longrightarrow>
   \<exists>pre cur.
     calls w' = calls w @ pre @ [(Execute (last stmts), Opened cur), (Commit, Done)]
     \<and> last_row_id a' = lastrowid cur"
proof (induction stmts arbitrary: a w)
  case Nil
  then show ?case by simp
next
  case (Cons stmt rest)
  show ?case
  proof (cases "rest = []")
    case True
    with Cons.prems have sel: "\<not> is_select stmt" by simp
    from exec_loop_write_step [OF sel Cons.prems(3)] True obtain cur w1 where
      c: "calls w1 = calls w @ [(Execute stmt, Opened cur), (Commit, Done)]" and
      r: "a' = a\<lparr>total_rows_affected := add_rowcount (total_rows_affected a) cur,
                   last_row_id := lastrowid cur\<rparr>" "w' = w1"
      by auto
    have "calls w' = calls w @ [] @ [(Execute (last (stmt # rest)), Opened cur), (Commit, Done)]"
      using c r True by simp
    moreover have "last_row_id a' = lastrowid cur" using r by simp
    ultimately show ?thesis by blast
  next
    case False
    with Cons.prems have lst: "\<not> is_select (last rest)" by simp
    have "\<exists>a1 w1 two. calls w1 = calls w @ two \<and> exec_loop eng rest a1 w1 = (Inr a', w')"
    proof (cases "is_select stmt")
      case True
      from exec_loop_select_step [OF True Cons.prems(3)] show ?thesis by blast
    next
      case False
      from exec_loop_write_step [OF False Cons.prems(3)] show ?thesis by blast
    qed
    then obtain a1 w1 two where
      c: "calls w1 = calls w @ two" and r: "exec_loop eng rest a1 w1 = (Inr a', w')"
      by blast
    from Cons.IH [OF False lst r] obtain pre cur where
      e: "calls w' = calls w1 @ pre @ [(Execute (last rest), Opened cur), (Commit, Done)]"
         "last_row_id a' = lastrowid cur"
      by blast
    have "calls w' = calls w @ (two @ pre) @ [(Execute (last (stmt # rest)), Opened cur), (Commit, Done)]"
      using c e(1) False by simp
    with e(2) show ?thesis by blast
  qed
qed


lemma logged_cases:
  "logged c rep log r = (x, w1) \<Longrightarrow>
   (\<exists>e. x = Inl e \<and> calls w1 = log @ [(c, Raised e)])
   \<or> (\<exists>a. x = Inr a \<and> calls w1 = log @ [(c, rep a)])"
  by (cases "(c, rep, log, r)" rule: logged.cases) auto

lemma bind_io_cases:
  "bind_io m f w = (x, w') \<Longrightarrow>
   (\<exists>e. x = Inl e \<and> m w = (Inl e, w')) \<or> (\<exists>a w1. m w = (Inr a, w1) \<and> f a w1 = (x, w'))"
proof -
  obtain r w1 where mw: "m w = (r, w1)" by (cases "m w")
  assume "bind_io m f w = (x, w')"
  with mw show ?thesis by (cases r) (auto simp: bind_io_def)
qed


lemma exec_loop_step:
  assumes "exec_loop eng (stmt # rest) a w = (x, w')"
  shows "(\<exists>e. x = Inl e \<and> calls w' = calls w @ [(Execute stmt, Raised e)])
    \<or> (\<exists>e cur. x = Inl e
          \<and> calls w' = calls w @ [(Execute stmt, Opened cur), (second_call stmt, Raised e)])
    \<or> (\<exists>cur rep a1 w1. \<not> is_raised rep
          \<and> calls w1 = calls w @ [(Execute stmt, Opened cur), (second_call stmt, rep)]
          \<and> exec_loop eng rest a1 w1 = (x, w'))"
proof (cases "is_select stmt")
  case True
  from assms True have
    "bind_io (cursor_execute eng stmt) (\<lambda>cur.
       bind_io (cursor_fetchall eng) (\<lambda>rows.
       exec_loop eng rest (a\<lparr>select_result := rows_as_dicts (cols_of cur) rows\<rparr>))) w = (x, w')"
    by simp
  from bind_io_cases [OF this] show ?thesis
  proof (elim disjE exE conjE)
    fix e assume "x = Inl e" "cursor_execute eng stmt w = (Inl e, w')"
    then show ?thesis
      by (auto simp: cursor_execute_def dest: logged_Inl)
  next
    fix cur wa
    assume 1: "cursor_execute eng stmt w = (Inr cur, wa)"
      and 2: "bind_io (cursor_fetchall eng) (\<lambda>rows.
          exec_loop eng rest (a\<lparr>select_result := rows_as_dicts (cols_of cur) rows\<rparr>)) wa = (x, w')"
    from bind_io_cases [OF 2] show ?thesis
    proof (elim disjE exE conjE)
      fix e assume "x = Inl e" "cursor_fetchall eng wa = (Inl e, w')"
      with cursor_execute_Inr [OF 1] True show ?thesis
        by (auto simp: cursor_fetchall_def second_call_def dest: logged_Inl)
    next
      fix rows w1
      assume 3: "cursor_fetchall eng wa = (Inr rows, w1)"
        and 4: "exec_loop eng rest (a\<lparr>select_result := rows_as_dicts (cols_of cur) rows\<rparr>) w1 = (x, w')"
      from cursor_execute_Inr [OF 1] cursor_fetchall_Inr [OF 3] True
      have "calls w1 = calls w @ [(Execute stmt, Opened cur), (second_call stmt, Rows rows)]"
        by (simp add: second_call_def)
      moreover have "\<not> is_raised (Rows rows)" by simp
      ultimately show ?thesis using 4 by blast
    qed
  qed
next
  case False
  from assms False have
    "bind_io (cursor_execute eng stmt) (\<lambda>cur.
       bind_io (conn_commit eng) (\<lambda>_.
       exec_loop eng rest
         (a\<lparr>total_rows_affected := add_rowcount (total_rows_affected a) cur,
            last_row_id := lastrowid cur\<rparr>))) w = (x, w')"
    by simp
  from bind_io_cases [OF this] show ?thesis
  proof (elim disjE exE conjE)
    fix e assume "x = Inl e" "cursor_execute eng stmt w = (Inl e, w')"
    then show ?thesis
      by (auto simp: cursor_execute_def dest: logged_Inl)
  next
    fix cur wa
    assume 1: "cursor_execute eng stmt w = (Inr cur, wa)"
      and 2: "bind_io (conn_commit eng) (\<lambda>_.
       exec_loop eng rest
         (a\<lparr>total_rows_affected := add_rowcount (total_rows_affected a) cur,
            last_row_id := lastrowid cur\<rparr>)) wa = (x, w')"
    from bind_io_cases [OF 2] show ?thesis
    proof (elim disjE exE conjE)
      fix e assume "x = Inl e" "conn_commit eng wa = (Inl e, w')"
      with cursor_execute_Inr [OF 1] False show ?thesis
        by (auto simp: conn_commit_def second_call_def dest: logged_Inl)
    next
      fix u w1
      assume 3: "conn_commit eng wa = (Inr u, w1)"
        and 4: "exec_loop eng rest
         (a\<lparr>total_rows_affected := add_rowcount (total_rows_affected a) cur,
            last_row_id := lastrowid cur\<rparr>) w1 = (x, w')"
      from cursor_execute_Inr [OF 1] conn_commit_Inr [OF 3] False
      have "calls w1 = calls w @ [(Execute stmt, Opened cur), (second_call stmt, Done)]"
        by (simp add: second_call_def)
      moreover have "\<not> is_raised Done" by simp
      ultimately show ?thesis using 4 by blast
    qed
  qed
qed


lemma exec_loop_run:
  "exec_loop eng stmts a w = (x, w') \<Longrightarrow>
   \<exists>evs. calls w' = calls w @ evs \<and> commits_follow evs \<and> Rollback \<notin> fst ` set evs
     \<and> (\<forall>e. x = Inl e \<longrightarrow> evs \<noteq> [] \<and> snd (last evs) = Raised e)
     \<and> (\<forall>a'. x = Inr a' \<longrightarrow> (\<forall>ev\<in>set evs. \<not> is_raised (snd ev)))"
proof (induction stmts arbitrary: a w)
  case Nil
  then have "calls w' = calls w @ []" "x = Inr a" by auto
  then show ?case by (intro exI [of _ "[]"]) simp
next
  case (Cons stmt rest)
  from exec_loop_step [OF Cons.prems] show ?case
  proof (elim disjE exE conjE)
    fix e assume "x = Inl e" "calls w' = calls w @ [(Execute stmt, Raised e)]"
    then show ?thesis
      by (intro exI [of _ "[(Execute stmt, Raised e)]"]) simp
  next
    fix e cur
    assume "x = Inl e"
      "calls w' = calls w @ [(Execute stmt, Opened cur), (second_call stmt, Raised e)]"
    then show ?thesis
      by (intro exI [of _ "[(Execute stmt, Opened cur), (second_call stmt, Raised e)]"])
         (simp add: second_call_def)
  next
    fix cur rep a1 w1
    assume nr: "\<not> is_raised rep"
      and c: "calls w1 = calls w @ [(Execute stmt, Opened cur), (second_call stmt, rep)]"
      and r: "exec_loop eng rest a1 w1 = (x, w')"
    from Cons.IH [OF r] obtain evs where
      e: "calls w' = calls w1 @ evs" "commits_follow evs" "Rollback \<notin> fst ` set evs"
         "\<forall>e. x = Inl e \<longrightarrow> evs \<noteq> [] \<and> snd (last evs) = Raised e"
         "\<forall>a'. x = Inr a' \<longrightarrow> (\<forall>ev\<in>set evs. \<not> is_raised (snd ev))"
      by blast
    let ?evs = "[(Execute stmt, Opened cur), (second_call stmt, rep)] @ evs"
    have 1: "calls w' = calls w @ ?evs" using c e(1) by simp
    have 2: "commits_follow ?evs" using e(2) by (simp add: second_call_def)
    have 3: "Rollback \<notin> fst ` set ?evs" using e(3) by (auto simp: second_call_def)
    have 4: "\<forall>e. x = Inl e \<longrightarrow> ?evs \<noteq> [] \<and> snd (last ?evs) = Raised e" using e(4) by simp
    have 5: "\<forall>a'. x = Inr a' \<longrightarrow> (\<forall>ev\<in>set ?evs. \<not> is_raised (snd ev))"
      using e(5) nr by simp
    from 1 2 3 4 5 show ?thesis by blast
  qed
qed

lemma followed_by_commit_append:
  "followed_by_commit evs \<Longrightarrow> followed_by_commit (evs @ ys)"
  by (cases evs) auto

lemma commits_follow_append:
  "commits_follow evs \<Longrightarrow> commits_follow ys \<Longrightarrow> commits_follow (evs @ ys)"
  by (induction evs rule: commits_follow.induct) (auto simp: followed_by_commit_append)

lemma sqlite3_connect_cases:
  "sqlite3_connect eng w = (x, w1) \<Longrightarrow>
   (\<exists>e. x = Inl e \<and> calls w1 = calls w @ [(Connect, Raised e)])
   \<or> (x = Inr () \<and> calls w1 = calls w @ [(Connect, Done)])"
  by (auto simp: sqlite3_connect_def dest: logged_cases)

lemma conn_close_cases:
  "conn_close eng w = (x, w1) \<Longrightarrow>
   (\<exists>e. x = Inl e \<and> calls w1 = calls w @ [(Close, Raised e)])
   \<or> (x = Inr () \<and> calls w1 = calls w @ [(Close, Done)])"
  by (auto simp: conn_close_def dest: logged_cases)

lemma exec_statements_run:
  assumes "exec_statements eng stmts w = (x, w')"
  shows "\<exists>evs. calls w' = calls w @ evs \<and> commits_follow evs \<and> Rollback \<notin> fst ` set evs
     \<and> (\<forall>e. x = Inl e \<longrightarrow> evs \<noteq> [] \<and> snd (last evs) = Raised e)
     \<and> (\<forall>r. x = Inr r \<longrightarrow> (\<forall>ev\<in>set evs. \<not> is_raised (snd ev)))"
proof (cases "stmts = []")
  case True
  with assms have "calls w' = calls w @ []" "\<exists>r. x = Inr r"
    by (auto simp: exec_statements_def return_io_def)
  then show ?thesis by (intro exI [of _ "[]"]) auto
next
  case False
  let ?init = "\<lparr>total_rows_affected = 0, last_row_id = None, select_result = []\<rparr>"
  from assms False have
    "bind_io (exec_loop eng stmts ?init) (\<lambda>a.
       bind_io (conn_close eng) (\<lambda>_. return_io (final_result stmts a))) w = (x, w')"
    by (simp add: exec_statements_def)
  from bind_io_cases [OF this] show ?thesis
  proof (elim disjE exE conjE)
    fix e assume "x = Inl e" "exec_loop eng stmts ?init w = (Inl e, w')"
    from exec_loop_run [OF this(2)] this(1) show ?thesis by blast
  next
    fix a w1
    assume l: "exec_loop eng stmts ?init w = (Inr a, w1)"
      and c: "bind_io (conn_close eng) (\<lambda>_. return_io (final_result stmts a)) w1 = (x, w')"
    from exec_loop_run [OF l] obtain evs where
      e: "calls w1 = calls w @ evs" "commits_follow evs" "Rollback \<notin> fst ` set evs"
         "\<forall>ev\<in>set evs. \<not> is_raised (snd ev)"
      by blast
    from bind_io_cases [OF c] show ?thesis
    proof (elim disjE exE conjE)
      fix e' assume x: "x = Inl e'" and "conn_close eng w1 = (Inl e', w')"
      with conn_close_cases [OF this(2)] have cw: "calls w' = calls w1 @ [(Close, Raised e')]"
        by auto
      let ?evs = "evs @ [(Close, Raised e')]"
      have "calls w' = calls w @ ?evs" using cw e(1) by simp
      moreover have "commits_follow ?evs" using e(2) by (simp add: commits_follow_append)
      moreover have "Rollback \<notin> fst ` set ?evs" using e(3) by auto
      ultimately show ?thesis using x by (intro exI [of _ ?evs]) simp
    next
      fix u w2
      assume cl: "conn_close eng w1 = (Inr u, w2)"
        and rt: "return_io (final_result stmts a) w2 = (x, w')"
      from conn_close_Inr [OF cl] rt have cw: "calls w' = calls w1 @ [(Close, Done)]"
        and x: "\<exists>r. x = Inr r"
        by (auto simp: return_io_def)
      let ?evs = "evs @ [(Close, Done)]"
      have "calls w' = calls w @ ?evs" using cw e(1) by simp
      moreover have "commits_follow ?evs" using e(2) by (simp add: commits_follow_append)
      moreover have "Rollback \<notin> fst ` set ?evs" using e(3) by auto
      moreover have "\<forall>ev\<in>set ?evs. \<not> is_raised (snd ev)" using e(4) by simp
      ultimately show ?thesis using x by (intro exI [of _ ?evs]) auto
    qed
  qed
qed

lemma exec_body_run:
  assumes "exec_body eng sql w = (x, w')"
  shows "\<exists>evs. calls w' = calls w @ evs \<and> commits_follow evs \<and> Rollback \<notin> fst ` set evs
     \<and> (\<forall>e. x = Inl e \<longrightarrow> evs \<noteq> [] \<and> snd (last evs) = Raised e)
     \<and> (\<forall>r. x = Inr r \<longrightarrow> (\<forall>ev\<in>set evs. \<not> is_raised (snd ev)))"
proof -
  from assms have
    "bind_io (sqlite3_connect eng) (\<lambda>_. exec_statements eng (statements_of sql)) w = (x, w')"
    by (simp add: exec_body_def)
  from bind_io_cases [OF this] show ?thesis
  proof (elim disjE exE conjE)
    fix e assume x: "x = Inl e" and "sqlite3_connect eng w = (Inl e, w')"
    with sqlite3_connect_cases [OF this(2)] have "calls w' = calls w @ [(Connect, Raised e)]"
      by auto
    with x show ?thesis by (intro exI [of _ "[(Connect, Raised e)]"]) simp
  next
    fix u w0
    assume c: "sqlite3_connect eng w = (Inr u, w0)"
      and r: "exec_statements eng (statements_of sql) w0 = (x, w')"
    from exec_statements_run [OF r] obtain evs where
      e: "calls w' = calls w0 @ evs" "commits_follow evs" "Rollback \<notin> fst ` set evs"
         "\<forall>e. x = Inl e \<longrightarrow> evs \<noteq> [] \<and> snd (last evs) = Raised e"
         "\<forall>r. x = Inr r \<longrightarrow> (\<forall>ev\<in>set evs. \<not> is_raised (snd ev))"
      by blast
    let ?evs = "(Connect, Done) # evs"
    have "calls w' = calls w @ ?evs" using sqlite3_connect_Inr [OF c] e(1) by simp
    moreover have "commits_follow ?evs" using e(2) by simp
    moreover have "Rollback \<notin> fst ` set ?evs" using e(3) by simp
    moreover have "\<forall>e. x = Inl e \<longrightarrow> ?evs \<noteq> [] \<and> snd (last ?evs) = Raised e" using e(4) by simp
    moreover have "\<forall>r. x = Inr r \<longrightarrow> (\<forall>ev\<in>set ?evs. \<not> is_raised (snd ev))" using e(5) by simp
    ultimately show ?thesis by blast
  qed
qed


lemma new_calls_append: "calls w' = calls w @ evs \<Longrightarrow> new_calls w w' = evs"
  by (simp add: new_calls_def)

lemma execute_sql_query_body:
  assumes "execute_sql_query eng sql w = (res, w')"
  shows "(\<exists>e. exec_body eng sql w = (Inl e, w')
            \<and> res = [[(''error'', PStr (''Error executing query: '' @ e))]])
         \<or> exec_body eng sql w = (Inr res, w')"
proof -
  obtain x w1 where b: "exec_body eng sql w = (x, w1)" by (cases "exec_body eng sql w")
  with assms show ?thesis by (cases x) (auto simp: execute_sql_query_def)
qed

lemma no_raise_body:
  assumes "execute_sql_query eng sql w = (res, w')"
    and "\<forall>ev\<in>set (new_calls w w'). \<not> is_raised (snd ev)"
  shows "exec_body eng sql w = (Inr res, w')"
proof -
  from execute_sql_query_body [OF assms(1)] show ?thesis
  proof
    assume "\<exists>e. exec_body eng sql w = (Inl e, w')
            \<and> res = [[(''error'', PStr (''Error executing query: '' @ e))]]"
    then obtain e where b: "exec_body eng sql w = (Inl e, w')" by blast
    from exec_body_run [OF b] obtain evs where
      e: "calls w' = calls w @ evs" "evs \<noteq> []" "snd (last evs) = Raised e"
      by blast
    from e(2) have "last evs \<in> set evs" by simp
    with assms(2) new_calls_append [OF e(1)] e(3) show ?thesis by auto
  qed
qed

lemma exec_body_Inr:
  assumes "statements_of sql \<noteq> []" and "exec_body eng sql w = (Inr res, w')"
  shows "\<exists>w0 a w1. calls w0 = calls w @ [(Connect, Done)]
     \<and> exec_loop eng (statements_of sql)
          \<lparr>total_rows_affected = 0, last_row_id = None, select_result = []\<rparr> w0 = (Inr a, w1)
     \<and> calls w' = calls w1 @ [(Close, Done)]
     \<and> res = final_result (statements_of sql) a"
proof -
  let ?init = "\<lparr>total_rows_affected = 0, last_row_id = None, select_result = []\<rparr>"
  from assms(2) have
    "bind_io (sqlite3_connect eng) (\<lambda>_. exec_statements eng (statements_of sql)) w = (Inr res, w')"
    by (simp add: exec_body_def)
  from bind_io_Inr [OF this] obtain u w0 where
    c: "sqlite3_connect eng w = (Inr u, w0)" and
    s: "exec_statements eng (statements_of sql) w0 = (Inr res, w')"
    by blast
  from s assms(1) have
    "bind_io (exec_loop eng (statements_of sql) ?init) (\<lambda>a.
       bind_io (conn_close eng) (\<lambda>_. return_io (final_result (statements_of sql) a))) w0
     = (Inr res, w')"
    by (simp add: exec_statements_def)
  from bind_io_Inr [OF this] obtain a w1 where
    l: "exec_loop eng (statements_of sql) ?init w0 = (Inr a, w1)" and
    k: "bind_io (conn_close eng) (\<lambda>_. return_io (final_result (statements_of sql) a)) w1
        = (Inr res, w')"
    by blast
  from bind_io_Inr [OF k] obtain u' w2 where
    cl: "conn_close eng w1 = (Inr u', w2)" and
    rt: "return_io (final_result (statements_of sql) a) w2 = (Inr res, w')"
    by blast
  from rt have "w' = w2" "res = final_result (statements_of sql) a"
    by (auto simp: return_io_def)
  with sqlite3_connect_Inr [OF c] conn_close_Inr [OF cl] l show ?thesis by blast
qed

section \<open>The result of \<^verbatim>\<open>execute_sql_query\<close>\<close>

text \<open>
  C1, as stated, at the text \<^verbatim>\<open>DELETE FORM t; SELECT x FROM t\<close>, on which the engine raises at
  the first statement: the text splits into two statements, the last a SELECT, yet the SELECT
  is never executed and the result is the error row, not rows of the SELECT.
\<close>

theorem execute_result_counterexample:
  "statements_of ''DELETE FORM t; SELECT x FROM t'' = [''DELETE FORM t'', ''SELECT x FROM t'']
   \<and> is_select (last (statements_of ''DELETE FORM t; SELECT x FROM t''))
   \<and> fst (execute_sql_query toy_engine ''DELETE FORM t; SELECT x FROM t'' (toy_world [1, 2]))
     = [[(''error'', PStr ''Error executing query: syntax error'')]]
   \<and> new_calls (toy_world [1, 2])
        (snd (execute_sql_query toy_engine ''DELETE FORM t; SELECT x FROM t'' (toy_world [1, 2])))
     = [(Connect, Done), (Execute ''DELETE FORM t'', Raised ''syntax error'')]"
  by code_simp

text \<open>
  C1, amended. Let the text split into at least one statement and let no call on the engine
  raise. Then \<^verbatim>\<open>execute_sql_query\<close> connects, executes the statements in their order (each
  read followed by \<^verbatim>\<open>fetchall\<close>, each write by \<^verbatim>\<open>commit\<close>) and closes. If the final statement
  starts with SELECT, the result is the rows fetched for that statement, each as a mapping from
  the column names of its cursor; otherwise it is one mapping whose \<^verbatim>\<open>rows_affected\<close> is the
  sum of the row counts the executed writes reported and whose \<^verbatim>\<open>last_row_id\<close> is the
  \<^verbatim>\<open>lastrowid\<close> of the final statement's cursor. The text
  \<^verbatim>\<open>DELETE FROM t WHERE x=1; SELECT * FROM t;\<close> splits into two statements, the last a SELECT.
\<close>

theorem execute_result_is_final_statement:
  assumes stmts: "statements_of sql \<noteq> []"
    and run: "execute_sql_query eng sql w = (res, w')"
    and ok: "\<forall>ev\<in>set (new_calls w w'). \<not> is_raised (snd ev)"
  shows "map fst (new_calls w w') = Connect # concat (map stmt_calls (statements_of sql)) @ [Close]
    \<and> (is_select (last (statements_of sql)) \<longrightarrow>
         (\<exists>pre cur rows.
            new_calls w w' = pre @ [(Execute (last (statements_of sql)), Opened cur),
                                    (Fetchall, Rows rows), (Close, Done)]
            \<and> res = rows_as_dicts (cols_of cur) rows))
    \<and> (\<not> is_select (last (statements_of sql)) \<longrightarrow>
         (\<exists>pre cur.
            new_calls w w' = pre @ [(Execute (last (statements_of sql)), Opened cur),
                                    (Commit, Done), (Close, Done)]
            \<and> res = [[(''rows_affected'', PInt (sum_list (write_counts (new_calls w w')))),
                       (''last_row_id'', opt_int (lastrowid cur))]]))
    \<and> statements_of ''DELETE FROM t WHERE x=1; SELECT * FROM t;''
         = [''DELETE FROM t WHERE x=1'', ''SELECT * FROM t'']
    \<and> is_select (last (statements_of ''DELETE FROM t WHERE x=1; SELECT * FROM t;''))"
proof -
  let ?init = "\<lparr>total_rows_affected = 0, last_row_id = None, select_result = []\<rparr>"
  let ?S = "statements_of sql"
  from exec_body_Inr [OF stmts no_raise_body [OF run ok]] obtain w0 a w1 where
    c: "calls w0 = calls w @ [(Connect, Done)]" and
    l: "exec_loop eng ?S ?init w0 = (Inr a, w1)" and
    k: "calls w' = calls w1 @ [(Close, Done)]" and
    r: "res = final_result ?S a"
    by blast
  from exec_loop_log [OF l] obtain evs where
    e: "calls w1 = calls w0 @ evs" "map fst evs = concat (map stmt_calls ?S)"
       "total_rows_affected a = sum_list (write_counts evs)"
    by auto
  have n: "new_calls w w' = (Connect, Done) # evs @ [(Close, Done)]"
    using c e(1) k by (intro new_calls_append) simp
  have wc: "write_counts (new_calls w w') = write_counts evs"
    by (simp add: n write_counts_append)
  have 1: "map fst (new_calls w w') = Connect # concat (map stmt_calls ?S) @ [Close]"
    using n e(2) by simp
  have 2: "\<exists>pre cur rows.
            new_calls w w' = pre @ [(Execute (last ?S), Opened cur), (Fetchall, Rows rows), (Close, Done)]
            \<and> res = rows_as_dicts (cols_of cur) rows" if sel: "is_select (last ?S)"
  proof -
    from exec_loop_last_select [OF stmts sel l] obtain pre cur rows where
      p: "calls w1 = calls w0 @ pre @ [(Execute (last ?S), Opened cur), (Fetchall, Rows rows)]"
         "select_result a = rows_as_dicts (cols_of cur) rows"
      by blast
    have "new_calls w w' = ((Connect, Done) # pre)
            @ [(Execute (last ?S), Opened cur), (Fetchall, Rows rows), (Close, Done)]"
      using c p(1) k by (intro new_calls_append) simp
    moreover have "res = rows_as_dicts (cols_of cur) rows"
      using r sel p(2) by (simp add: final_result_def)
    ultimately show ?thesis by blast
  qed
  have 3: "\<exists>pre cur.
            new_calls w w' = pre @ [(Execute (last ?S), Opened cur), (Commit, Done), (Close, Done)]
            \<and> res = [[(''rows_affected'', PInt (sum_list (write_counts (new_calls w w')))),
                       (''last_row_id'', opt_int (lastrowid cur))]]" if wr: "\<not> is_select (last ?S)"
  proof -
    from exec_loop_last_write [OF stmts wr l] obtain pre cur where
      p: "calls w1 = calls w0 @ pre @ [(Execute (last ?S), Opened cur), (Commit, Done)]"
         "last_row_id a = lastrowid cur"
      by blast
    have "new_calls w w' = ((Connect, Done) # pre)
            @ [(Execute (last ?S), Opened cur), (Commit, Done), (Close, Done)]"
      using c p(1) k by (intro new_calls_append) simp
    moreover have "res = [[(''rows_affected'', PInt (sum_list (write_counts (new_calls w w')))),
                       (''last_row_id'', opt_int (lastrowid cur))]]"
      using r wr p(2) e(3) wc by (simp add: final_result_def)
    ultimately show ?thesis by blast
  qed
  have 4: "statements_of ''DELETE FROM t WHERE x=1; SELECT * FROM t;''
         = [''DELETE FROM t WHERE x=1'', ''SELECT * FROM t'']"
    by code_simp
  have 5: "is_select (last (statements_of ''DELETE FROM t WHERE x=1; SELECT * FROM t;''))"
    by code_simp
  from 1 2 3 4 5 show ?thesis by blast
qed

theorem execute_result_is_final_statement_witness:
  "statements_of ''INSERT INTO t VALUES (7); SELECT x FROM t;'' \<noteq> []
   \<and> execute_sql_query toy_engine ''INSERT INTO t VALUES (7); SELECT x FROM t;'' (toy_world [1, 2])
       = ([[(''x'', PInt 1)], [(''x'', PInt 2)], [(''x'', PInt 7)]],
          snd (execute_sql_query toy_engine ''INSERT INTO t VALUES (7); SELECT x FROM t;''
                 (toy_world [1, 2])))
   \<and> list_all (\<lambda>ev. \<not> is_raised (snd ev))
         (new_calls (toy_world [1, 2])
            (snd (execute_sql_query toy_engine ''INSERT INTO t VALUES (7); SELECT x FROM t;''
                    (toy_world [1, 2]))))
   \<and> map fst (new_calls (toy_world [1, 2])
                 (snd (execute_sql_query toy_engine ''INSERT INTO t VALUES (7); SELECT x FROM t;''
                        (toy_world [1, 2]))))
       = Connect # concat (map stmt_calls (statements_of ''INSERT INTO t VALUES (7); SELECT x FROM t;''))
         @ [Close]"
proof -
  have h1: "statements_of ''INSERT INTO t VALUES (7); SELECT x FROM t;'' \<noteq> []"
    by code_simp
  have h2: "execute_sql_query toy_engine ''INSERT INTO t VALUES (7); SELECT x FROM t;'' (toy_world [1, 2])
       = ([[(''x'', PInt 1)], [(''x'', PInt 2)], [(''x'', PInt 7)]],
          snd (execute_sql_query toy_engine ''INSERT INTO t VALUES (7); SELECT x FROM t;''
                 (toy_world [1, 2])))"
    by code_simp
  have h3: "\<forall>ev\<in>set (new_calls (toy_world [1, 2])
                 (snd (execute_sql_query toy_engine ''INSERT INTO t VALUES (7); SELECT x FROM t;''
                        (toy_world [1, 2])))). \<not> is_raised (snd ev)"
    by code_simp
  from execute_result_is_final_statement [OF h1 h2 h3] h1 h2 h3 show ?thesis
    by (simp only: list_all_iff) blast
qed

text \<open>
  C8. When the final statement is a write and no call on the engine raises, the result is a
  single mapping whose keys are exactly \<^verbatim>\<open>rows_affected\<close> and \<^verbatim>\<open>last_row_id\<close>, the first an
  integer, the second an integer or \<^verbatim>\<open>None\<close>: no rows of an earlier SELECT are in it.
\<close>

theorem write_result_has_summary_keys:
  assumes stmts: "statements_of sql \<noteq> []"
    and wr: "\<not> is_select (last (statements_of sql))"
    and run: "execute_sql_query eng sql w = (res, w')"
    and ok: "\<forall>ev\<in>set (new_calls w w'). \<not> is_raised (snd ev)"
  shows "length res = 1 \<and> keys (hd res) = [''rows_affected'', ''last_row_id'']
    \<and> (\<exists>n. dict_get (hd res) ''rows_affected'' = Some (PInt n))
    \<and> (dict_get (hd res) ''last_row_id'' = Some PNone
        \<or> (\<exists>i. dict_get (hd res) ''last_row_id'' = Some (PInt i)))"
proof -
  from exec_body_Inr [OF stmts no_raise_body [OF run ok]] obtain a where
    "res = final_result (statements_of sql) a"
    by blast
  with wr have "res = [[(''rows_affected'', PInt (total_rows_affected a)),
                        (''last_row_id'', opt_int (last_row_id a))]]"
    by (simp add: final_result_def)
  then show ?thesis
    by (cases "last_row_id a") (simp_all add: keys_def dict_get_def opt_int_def)
qed

theorem write_result_has_summary_keys_witness:
  "statements_of ''SELECT x FROM t; INSERT INTO t VALUES (7)'' \<noteq> []
   \<and> \<not> is_select (last (statements_of ''SELECT x FROM t; INSERT INTO t VALUES (7)''))
   \<and> execute_sql_query toy_engine ''SELECT x FROM t; INSERT INTO t VALUES (7)'' (toy_world [1, 2])
       = ([[(''rows_affected'', PInt 1), (''last_row_id'', PInt 3)]],
          snd (execute_sql_query toy_engine ''SELECT x FROM t; INSERT INTO t VALUES (7)''
                 (toy_world [1, 2])))
   \<and> list_all (\<lambda>ev. \<not> is_raised (snd ev))
         (new_calls (toy_world [1, 2])
            (snd (execute_sql_query toy_engine ''SELECT x FROM t; INSERT INTO t VALUES (7)''
                    (toy_world [1, 2]))))
   \<and> keys (hd [[(''rows_affected'', PInt 1), (''last_row_id'', PInt 3)]])
       = [''rows_affected'', ''last_row_id'']"
proof -
  have h1: "statements_of ''SELECT x FROM t; INSERT INTO t VALUES (7)'' \<noteq> []"
    by code_simp
  have h2: "\<not> is_select (last (statements_of ''SELECT x FROM t; INSERT INTO t VALUES (7)''))"
    by code_simp
  have h3: "execute_sql_query toy_engine ''SELECT x FROM t; INSERT INTO t VALUES (7)'' (toy_world [1, 2])
       = ([[(''rows_affected'', PInt 1), (''last_row_id'', PInt 3)]],
          snd (execute_sql_query toy_engine ''SELECT x FROM t; INSERT INTO t VALUES (7)''
                 (toy_world [1, 2])))"
    by code_simp
  have h4: "\<forall>ev\<in>set (new_calls (toy_world [1, 2])
                 (snd (execute_sql_query toy_engine ''SELECT x FROM t; INSERT INTO t VALUES (7)''
                        (toy_world [1, 2])))). \<not> is_raised (snd ev)"
    by code_simp
  from write_result_has_summary_keys [OF h1 h2 h3 h4] h1 h2 h3 h4 show ?thesis
    by (simp only: list_all_iff) blast
qed

section \<open>Empty SQL\<close>

text \<open>
  C7. When the generated SQL is missing, empty or only whitespace, the executor node stores a
  result row with an \<^verbatim>\<open>error\<close> key and returns the world as it was: nothing was
  called, neither the validator (whose first step is to connect) nor the engine.
\<close>

theorem executor_node_blank_sql:
  assumes "\<forall>c\<in>set (or_empty (sql_query state)). is_space c"
  shows "query_executor_node eng state w
           = (state\<lparr>query_result := Some [[(''error'', PStr ''No SQL query provided'')]],
                    final_response := Some []\<rparr>, w)
    \<and> has_key (hd (or_empty (query_result (fst (query_executor_node eng state w))))) ''error''
    \<and> new_calls w (snd (query_executor_node eng state w)) = []"
  using strip_whitespace [OF assms]
  by (simp add: query_executor_node_def executor_on_def has_key_def dict_get_def new_calls_def)

theorem executor_node_blank_sql_witness:
  "list_all is_space (or_empty (sql_query
        \<lparr>user_query = ''hi'', sql_query = Some ''   '', query_result = Some [],
         final_response = Some []\<rparr>))
   \<and> query_executor_node toy_engine
        \<lparr>user_query = ''hi'', sql_query = Some ''   '', query_result = Some [],
         final_response = Some []\<rparr> (toy_world [1, 2])
      = (\<lparr>user_query = ''hi'', sql_query = Some ''   '',
          query_result = Some [[(''error'', PStr ''No SQL query provided'')]],
          final_response = Some []\<rparr>, toy_world [1, 2])"
proof -
  have h: "\<forall>c\<in>set (or_empty (sql_query
        \<lparr>user_query = ''hi'', sql_query = Some ''   '', query_result = Some [],
         final_response = Some []\<rparr>)). is_space c"
    by code_simp
  from executor_node_blank_sql [OF h, of toy_engine "toy_world [1, 2]"] h show ?thesis
    by (simp add: list_all_iff)
qed

text \<open>
  \<^verbatim>\<open>execute_sql_query\<close> itself, given such a text, opens the connection before it looks at
  the statements, executes nothing and returns an error row.
\<close>

lemma statements_of_blank: "(\<forall>c\<in>set sql. is_space c) \<Longrightarrow> statements_of sql = []"
  by (simp add: statements_of_def strip_whitespace py_split_def)

lemma execute_sql_query_blank:
  assumes "\<forall>c\<in>set sql. is_space c"
  shows "\<exists>r. fst (execute_sql_query eng sql w) = [r] \<and> has_key r ''error''
     \<and> map fst (new_calls w (snd (execute_sql_query eng sql w))) = [Connect]"
proof -
  obtain x s1 where c: "eng_connect eng (est w) = (x, s1)" by (cases "eng_connect eng (est w)")
  show ?thesis
    using c statements_of_blank [OF assms]
    by (cases x)
       (simp_all add: execute_sql_query_def exec_body_def bind_io_def sqlite3_connect_def
          exec_statements_def return_io_def has_key_def dict_get_def new_calls_def)
qed

section \<open>Commits\<close>

text \<open>
  C6. In every run of \<^verbatim>\<open>execute_sql_query\<close>, each write that executed is followed at once
  by a call of \<^verbatim>\<open>commit\<close>, and \<^verbatim>\<open>rollback\<close> is never called. When a call raises, it is the
  last call of the run and the result is the error row: nothing is done afterwards to undo
  the writes committed before it.
\<close>

theorem execute_commits_each_write:
  assumes run: "execute_sql_query eng sql w = (res, w')"
  shows "commits_follow (new_calls w w') \<and> Rollback \<notin> fst ` set (new_calls w w')
    \<and> ((\<exists>ev\<in>set (new_calls w w'). is_raised (snd ev)) \<longrightarrow>
        (\<exists>e. new_calls w w' \<noteq> [] \<and> snd (last (new_calls w w')) = Raised e
           \<and> res = [[(''error'', PStr (''Error executing query: '' @ e))]]))"
proof -
  from execute_sql_query_body [OF run] show ?thesis
  proof (elim disjE exE conjE)
    fix e
    assume b: "exec_body eng sql w = (Inl e, w')"
      and r: "res = [[(''error'', PStr (''Error executing query: '' @ e))]]"
    from exec_body_run [OF b] obtain evs where
      e: "calls w' = calls w @ evs" "commits_follow evs" "Rollback \<notin> fst ` set evs"
         "evs \<noteq> []" "snd (last evs) = Raised e"
      by blast
    from new_calls_append [OF e(1)] e(2-5) r show ?thesis by auto
  next
    assume b: "exec_body eng sql w = (Inr res, w')"
    from exec_body_run [OF b] obtain evs where
      e: "calls w' = calls w @ evs" "commits_follow evs" "Rollback \<notin> fst ` set evs"
         "\<forall>ev\<in>set evs. \<not> is_raised (snd ev)"
      by blast
    from new_calls_append [OF e(1)] e(2-4) show ?thesis by auto
  qed
qed

theorem execute_commits_each_write_witness:
  "execute_sql_query toy_engine ''INSERT INTO t VALUES (7); DELETE FORM t'' (toy_world [1, 2])
     = ([[(''error'', PStr ''Error executing query: syntax error'')]],
        snd (execute_sql_query toy_engine ''INSERT INTO t VALUES (7); DELETE FORM t'' (toy_world [1, 2])))
   \<and> new_calls (toy_world [1, 2])
        (snd (execute_sql_query toy_engine ''INSERT INTO t VALUES (7); DELETE FORM t'' (toy_world [1, 2])))
      = [(Connect, Done),
         (Execute ''INSERT INTO t VALUES (7)'',
          Opened \<lparr>description = None, rowcount = 1, lastrowid = Some 3\<rparr>),
         (Commit, Done),
         (Execute ''DELETE FORM t'', Raised ''syntax error'')]
   \<and> committed (est (snd (execute_sql_query toy_engine ''INSERT INTO t VALUES (7); DELETE FORM t''
                            (toy_world [1, 2])))) = [1, 2, 7]
   \<and> commits_follow (new_calls (toy_world [1, 2])
        (snd (execute_sql_query toy_engine ''INSERT INTO t VALUES (7); DELETE FORM t'' (toy_world [1, 2]))))
   \<and> Rollback \<notin> fst ` set (new_calls (toy_world [1, 2])
        (snd (execute_sql_query toy_engine ''INSERT INTO t VALUES (7); DELETE FORM t'' (toy_world [1, 2]))))"
proof -
  have h: "execute_sql_query toy_engine ''INSERT INTO t VALUES (7); DELETE FORM t'' (toy_world [1, 2])
     = ([[(''error'', PStr ''Error executing query: syntax error'')]],
        snd (execute_sql_query toy_engine ''INSERT INTO t VALUES (7); DELETE FORM t'' (toy_world [1, 2])))"
    by code_simp
  have n: "new_calls (toy_world [1, 2])
        (snd (execute_sql_query toy_engine ''INSERT INTO t VALUES (7); DELETE FORM t'' (toy_world [1, 2])))
      = [(Connect, Done),
         (Execute ''INSERT INTO t VALUES (7)'',
          Opened \<lparr>description = None, rowcount = 1, lastrowid = Some 3\<rparr>),
         (Commit, Done),
         (Execute ''DELETE FORM t'', Raised ''syntax error'')]"
    by code_simp
  have c: "committed (est (snd (execute_sql_query toy_engine ''INSERT INTO t VALUES (7); DELETE FORM t''
                            (toy_world [1, 2])))) = [1, 2, 7]"
    by code_simp
  from execute_commits_each_write [OF h] h n c show ?thesis
    by blast
qed

section \<open>Validation\<close>

text \<open>
  The dry run of a write sits in its own \<^verbatim>\<open>try\<close> block whose handler is \<^verbatim>\<open>pass\<close>: whatever
  the engine raises there is dropped. Statements that are all writes therefore never make
  the loop of the validator raise, with any engine.
\<close>

lemma validate_loop_writes:
  "list_all (\<lambda>s. \<not> is_select s) stmts \<Longrightarrow> \<exists>w'. validate_loop eng stmts plans w = (Inr plans, w')"
proof (induction stmts arbitrary: w)
  case Nil
  then show ?case by simp
next
  case (Cons stmt rest)
  obtain x w1 where t: "bind_io (cursor_execute eng stmt) (\<lambda>_. conn_rollback eng) w = (x, w1)"
    by (cases "bind_io (cursor_execute eng stmt) (\<lambda>_. conn_rollback eng) w")
  then have "try_pass (bind_io (cursor_execute eng stmt) (\<lambda>_. conn_rollback eng)) w = (Inr (), w1)"
    by (cases x) (simp_all add: try_pass_def)
  with Cons show ?case by (simp add: bind_io_def)
qed

text \<open>
  C5 says that a syntactically invalid statement, read or write, is rejected with the
  engine's message. At the text \<^verbatim>\<open>DELETE FORM t\<close>, a write on which the engine raises a
  syntax error, the validator executes the statement, drops the error, closes the connection
  and accepts: it returns \<^verbatim>\<open>{"valid": True, "plan": []}\<close>.
\<close>

theorem validator_accepts_invalid_write:
  "validate_sql_query toy_engine ''DELETE FORM t'' (toy_world [1, 2])
     = (Valid [],
        \<lparr>est = \<lparr>committed = [1, 2], working = [1, 2], pending = []\<rparr>,
         calls = [(Connect, Done), (Execute ''DELETE FORM t'', Raised ''syntax error''),
                  (Close, Done)]\<rparr>)
   \<and> \<not> is_select ''DELETE FORM t''
   \<and> eng_execute toy_engine ''DELETE FORM t'' \<lparr>committed = [1, 2], working = [1, 2], pending = []\<rparr>
     = (Inl ''syntax error'', \<lparr>committed = [1, 2], working = [1, 2], pending = []\<rparr>)"
  by code_simp


section \<open>The reply to a rejected query\<close>




section \<open>What the matcher accepts\<close>

text \<open>Membership in the list of outcomes, construct by construct.\<close>


lemma greedy_star_set:
  "set (greedy_star p s) = {r. \<exists>x. s = x @ r \<and> (\<forall>c\<in>set x. p c)}"
proof (induction s)
  case Nil
  then show ?case by auto
next
  case (Cons c cs)
  show ?case
  proof (cases "p c")
    case True
    have "{r. \<exists>x. c # cs = x @ r \<and> (\<forall>c\<in>set x. p c)}
          = insert (c # cs) {r. \<exists>x. cs = x @ r \<and> (\<forall>c\<in>set x. p c)}"
      using True by (auto simp: Cons_eq_append_conv)
    with Cons True show ?thesis by simp
  next
    case False
    have "{r. \<exists>x. c # cs = x @ r \<and> (\<forall>c\<in>set x. p c)} = {c # cs}"
      using False by (auto simp: Cons_eq_append_conv)
    with False show ?thesis by simp
  qed
qed

lemma lazy_star_set: "set (lazy_star p s) = set (greedy_star p s)"
  by (induction s) auto

lemma in_rmatch_Eps: "(r, c) \<in> set (rmatch i d Eps (s, cp)) \<longleftrightarrow> r = s \<and> c = cp"
  by auto

lemma in_rmatch_Atom:
  "(r, c) \<in> set (rmatch i d (Atom a) (s, cp)) \<longleftrightarrow> c = cp \<and> (\<exists>ch. s = ch # r \<and> atom_ok i d a ch)"
  by (cases s) auto

lemma in_rmatch_Star:
  "(r, c) \<in> set (rmatch i d (Star a) (s, cp))
   \<longleftrightarrow> c = cp \<and> (\<exists>x. s = x @ r \<and> (\<forall>ch\<in>set x. atom_ok i d a ch))"
  by (auto simp: greedy_star_set)

lemma in_rmatch_LazyStar:
  "(r, c) \<in> set (rmatch i d (LazyStar a) (s, cp))
   \<longleftrightarrow> c = cp \<and> (\<exists>x. s = x @ r \<and> (\<forall>ch\<in>set x. atom_ok i d a ch))"
  by (auto simp: lazy_star_set greedy_star_set)

lemma in_rmatch_Plus:
  "(r, c) \<in> set (rmatch i d (Plus a) (s, cp))
   \<longleftrightarrow> c = cp \<and> (\<exists>x. x \<noteq> [] \<and> s = x @ r \<and> (\<forall>ch\<in>set x. atom_ok i d a ch))"
proof (cases s)
  case Nil
  then show ?thesis by auto
next
  case (Cons h t)
  show ?thesis
  proof (cases "atom_ok i d a h")
    case True
    have "(\<exists>x. t = x @ r \<and> (\<forall>ch\<in>set x. atom_ok i d a ch))
          \<longleftrightarrow> (\<exists>x. x \<noteq> [] \<and> h # t = x @ r \<and> (\<forall>ch\<in>set x. atom_ok i d a ch))"
    proof
      assume "\<exists>x. t = x @ r \<and> (\<forall>ch\<in>set x. atom_ok i d a ch)"
      then obtain x where "t = x @ r" "\<forall>ch\<in>set x. atom_ok i d a ch" by blast
      with True have "h # x \<noteq> [] \<and> h # t = (h # x) @ r \<and> (\<forall>ch\<in>set (h # x). atom_ok i d a ch)"
        by simp
      then show "\<exists>x. x \<noteq> [] \<and> h # t = x @ r \<and> (\<forall>ch\<in>set x. atom_ok i d a ch)" by blast
    next
      assume "\<exists>x. x \<noteq> [] \<and> h # t = x @ r \<and> (\<forall>ch\<in>set x. atom_ok i d a ch)"
      then obtain x where x: "x \<noteq> []" "h # t = x @ r" "\<forall>ch\<in>set x. atom_ok i d a ch" by blast
      then obtain x' where "x = h # x'" by (cases x) auto
      with x show "\<exists>x. t = x @ r \<and> (\<forall>ch\<in>set x. atom_ok i d a ch)" by auto
    qed
    with Cons True show ?thesis by (auto simp: greedy_star_set)
  next
    case False
    have "\<not> (\<exists>x. x \<noteq> [] \<and> h # t = x @ r \<and> (\<forall>ch\<in>set x. atom_ok i d a ch))"
    proof
      assume "\<exists>x. x \<noteq> [] \<and> h # t = x @ r \<and> (\<forall>ch\<in>set x. atom_ok i d a ch)"
      then obtain x where x: "x \<noteq> []" "h # t = x @ r" "\<forall>ch\<in>set x. atom_ok i d a ch" by blast
      then obtain x' where "x = h # x'" by (cases x) auto
      with x False show False by simp
    qed
    with Cons False show ?thesis by auto
  qed
qed

lemma in_rmatch_Seq:
  "(r, c) \<in> set (rmatch i d (Seq r1 r2) st)
   \<longleftrightarrow> (\<exists>st'\<in>set (rmatch i d r1 st). (r, c) \<in> set (rmatch i d r2 st'))"
  by auto

lemma in_rmatch_Group:
  "(r, c) \<in> set (rmatch i d (Group n g) (s, cp))
   \<longleftrightarrow> (\<exists>c'. (r, c') \<in> set (rmatch i d g (s, cp)) \<and> c = dict_set c' n (take (length s - length r) s))"
  by (auto simp: image_iff) force

lemma in_rmatch_NotAhead:
  "(r, c) \<in> set (rmatch i d (NotAhead g) (s, cp))
   \<longleftrightarrow> r = s \<and> c = cp \<and> rmatch i d g (s, cp) = []"
  by auto

end
